theory Spec2Isabelle
  imports Complex_Main "HOL-Library.AList"
begin

section \<open>JavaScript Date values\<close>

text \<open>
  The booking modal of \<^verbatim>\<open>src/components/BookingModal.tsx\<close> computes with JavaScript
  \<^verbatim>\<open>Date\<close> objects through the date-fns library. A valid \<^verbatim>\<open>Date\<close> is its time value:
  the number of milliseconds since 1970-01-01T00:00:00Z. The calendar fields are those of
  ECMA-262 (section "Date Objects": \<^verbatim>\<open>Day\<close>, \<^verbatim>\<open>TimeWithinDay\<close>, \<^verbatim>\<open>DaysInYear\<close>,
  \<^verbatim>\<open>DayFromYear\<close>, \<^verbatim>\<open>YearFromTime\<close>, \<^verbatim>\<open>MonthFromTime\<close>, \<^verbatim>\<open>DateFromTime\<close>,
  \<^verbatim>\<open>WeekDay\<close>, \<^verbatim>\<open>MakeDay\<close>, \<^verbatim>\<open>MakeDate\<close>), read in a local time zone of fixed
  offset zero (UTC, no daylight saving). The time value is an unbounded integer: the
  clipping of ECMA-262 to \<open>\<plusminus>8.64e15\<close> ms and the invalid date \<^verbatim>\<open>NaN\<close> are outside the model.
\<close>

type_synonym Date = int

definition msPerDay :: int where
  "msPerDay = 86400000"

definition Day :: "Date \<Rightarrow> int" where
  "Day t = t div msPerDay"

definition TimeWithinDay :: "Date \<Rightarrow> int" where
  "TimeWithinDay t = t mod msPerDay"

definition DaysInYear :: "int \<Rightarrow> int" where
  "DaysInYear y =
     (if y mod 4 \<noteq> 0 then 365
      else if y mod 100 \<noteq> 0 then 366
      else if y mod 400 \<noteq> 0 then 365
      else 366)"

definition DayFromYear :: "int \<Rightarrow> int" where
  "DayFromYear y =
     365 * (y - 1970) + (y - 1969) div 4 - (y - 1901) div 100 + (y - 1601) div 400"

text \<open>
  ECMA-262 specifies the year of a day as the largest \<open>y\<close> with \<open>DayFromYear y \<le> d\<close>.
  It is computed here from the mean year length (146097 days in 400 years) and one
  correction step; \<open>YearFromDay_bounds\<close> and \<open>YearFromDay_unique\<close> below show that this is
  the year of the specification.
\<close>

definition YearFromDay :: "int \<Rightarrow> int" where
  "YearFromDay d =
     (let y = 1970 + (400 * d) div 146097
      in if d < DayFromYear y then y - 1
         else if DayFromYear (y + 1) \<le> d then y + 1
         else y)"

definition InLeapYear :: "int \<Rightarrow> int" where
  "InLeapYear y = (if DaysInYear y = 366 then 1 else 0)"

definition DayWithinYear :: "int \<Rightarrow> int" where
  "DayWithinYear d = d - DayFromYear (YearFromDay d)"

text \<open>The number of days of the year \<open>y\<close> before its month \<open>m\<close> (0 = January).\<close>

definition DaysBeforeMonth :: "int \<Rightarrow> int \<Rightarrow> int" where
  "DaysBeforeMonth m l =
     (if m = 0 then 0
      else if m = 1 then 31
      else if m = 2 then 59 + l
      else if m = 3 then 90 + l
      else if m = 4 then 120 + l
      else if m = 5 then 151 + l
      else if m = 6 then 181 + l
      else if m = 7 then 212 + l
      else if m = 8 then 243 + l
      else if m = 9 then 273 + l
      else if m = 10 then 304 + l
      else if m = 11 then 334 + l
      else 365 + l)"

definition MonthFromDay :: "int \<Rightarrow> int" where
  "MonthFromDay d =
     (let n = DayWithinYear d; l = InLeapYear (YearFromDay d)
      in if n < 31 then 0
         else if n < 59 + l then 1
         else if n < 90 + l then 2
         else if n < 120 + l then 3
         else if n < 151 + l then 4
         else if n < 181 + l then 5
         else if n < 212 + l then 6
         else if n < 243 + l then 7
         else if n < 273 + l then 8
         else if n < 304 + l then 9
         else if n < 334 + l then 10
         else 11)"

definition DateFromDay :: "int \<Rightarrow> int" where
  "DateFromDay d =
     DayWithinYear d - DaysBeforeMonth (MonthFromDay d) (InLeapYear (YearFromDay d)) + 1"

definition WeekDay :: "int \<Rightarrow> int" where
  "WeekDay d = (d + 4) mod 7"

definition MakeDay :: "int \<Rightarrow> int \<Rightarrow> int \<Rightarrow> int" where
  "MakeDay year month date =
     (let ym = year + month div 12; mn = month mod 12
      in DayFromYear ym + DaysBeforeMonth mn (InLeapYear ym) + date - 1)"

definition MakeTime :: "int \<Rightarrow> int \<Rightarrow> int \<Rightarrow> int \<Rightarrow> int" where
  "MakeTime hour minute sec ms = hour * 3600000 + minute * 60000 + sec * 1000 + ms"

definition MakeDate :: "int \<Rightarrow> int \<Rightarrow> Date" where
  "MakeDate day time = day * msPerDay + time"

subsection \<open>The methods of \<^verbatim>\<open>Date\<close> that date-fns calls\<close>

definition getFullYear :: "Date \<Rightarrow> int" where
  "getFullYear t = YearFromDay (Day t)"

definition getMonth :: "Date \<Rightarrow> int" where
  "getMonth t = MonthFromDay (Day t)"

definition getDate :: "Date \<Rightarrow> int" where
  "getDate t = DateFromDay (Day t)"

definition getDay :: "Date \<Rightarrow> int" where
  "getDay t = WeekDay (Day t)"

definition setDate :: "Date \<Rightarrow> int \<Rightarrow> Date" where
  "setDate t date = MakeDate (MakeDay (getFullYear t) (getMonth t) date) (TimeWithinDay t)"

definition setMonth :: "Date \<Rightarrow> int \<Rightarrow> int \<Rightarrow> Date" where
  "setMonth t month date = MakeDate (MakeDay (getFullYear t) month date) (TimeWithinDay t)"

definition setFullYear :: "Date \<Rightarrow> int \<Rightarrow> int \<Rightarrow> int \<Rightarrow> Date" where
  "setFullYear t year month date = MakeDate (MakeDay year month date) (TimeWithinDay t)"

definition setHours :: "Date \<Rightarrow> int \<Rightarrow> int \<Rightarrow> int \<Rightarrow> int \<Rightarrow> Date" where
  "setHours t hour minute sec ms = MakeDate (Day t) (MakeTime hour minute sec ms)"

subsection \<open>Facts about the calendar\<close>

lemma div_bounds:
  fixes a c :: int
  assumes "0 < c"
  shows "c * (a div c) \<le> a" and "a < c * (a div c) + c"
proof -
  have "a = c * (a div c) + a mod c" by simp
  moreover have "0 \<le> a mod c" "a mod c < c" using assms by simp_all
  ultimately show "c * (a div c) \<le> a" "a < c * (a div c) + c" by linarith+
qed

lemma div_succ:
  fixes a c :: int
  assumes "1 < c"
  shows "(a + 1) div c = a div c + (if (a + 1) mod c = 0 then 1 else 0)"
proof -
  have e1: "a = c * (a div c) + a mod c" by simp
  have r: "0 \<le> a mod c" "a mod c < c" using assms by simp_all
  show ?thesis
  proof (cases "a mod c = c - 1")
    case True
    have "a + 1 = c * (a div c) + (a mod c + 1)" using e1 by linarith
    also have "\<dots> = c * (a div c) + c" using True by simp
    also have "\<dots> = c * (a div c + 1) + 0" by (simp add: algebra_simps)
    finally have eq: "a + 1 = c * (a div c + 1) + 0" .
    have "(a + 1) div c = a div c + 1"
      using int_div_pos_eq [OF eq] assms by simp
    moreover have "(a + 1) mod c = 0"
      using int_mod_pos_eq [OF eq] assms by simp
    ultimately show ?thesis by simp
  next
    case False
    then have lt: "a mod c + 1 < c" using r by linarith
    have eq: "a + 1 = c * (a div c) + (a mod c + 1)" using e1 by linarith
    have "(a + 1) div c = a div c"
      using int_div_pos_eq [OF eq] r lt by simp
    moreover have "(a + 1) mod c = a mod c + 1"
      using int_mod_pos_eq [OF eq] r lt by simp
    ultimately show ?thesis using r by simp
  qed
qed

lemma mod_shift:
  fixes y :: int
  shows "(y - c * k) mod c = y mod c"
proof -
  have "y - c * k = y + c * (- k)" by simp
  then show ?thesis by (simp only: mod_mult_self2)
qed

lemma mod_zero_trans:
  fixes y :: int
  assumes "y mod b = 0" and "a dvd b"
  shows "y mod a = 0"
proof -
  have "b dvd y" using assms(1) by (simp add: mod_eq_0_iff_dvd)
  with assms(2) have "a dvd y" by (rule dvd_trans)
  then show ?thesis by (simp add: mod_eq_0_iff_dvd)
qed

lemma DayFromYear_step: "DayFromYear (y + 1) = DayFromYear y + DaysInYear y"
proof -
  have m4: "(y - 1969 + 1) mod 4 = 0 \<longleftrightarrow> y mod 4 = 0"
    using mod_shift [of y 4 492] by simp
  have m100: "(y - 1901 + 1) mod 100 = 0 \<longleftrightarrow> y mod 100 = 0"
    using mod_shift [of y 100 19] by simp
  have m400: "(y - 1601 + 1) mod 400 = 0 \<longleftrightarrow> y mod 400 = 0"
    using mod_shift [of y 400 4] by simp
  have a: "(y + 1 - 1969) div 4 = (y - 1969) div 4 + (if y mod 4 = 0 then 1 else 0)"
    using div_succ [of 4 "y - 1969"] m4 by (simp add: algebra_simps)
  have b: "(y + 1 - 1901) div 100 = (y - 1901) div 100 + (if y mod 100 = 0 then 1 else 0)"
    using div_succ [of 100 "y - 1901"] m100 by (simp add: algebra_simps)
  have c: "(y + 1 - 1601) div 400 = (y - 1601) div 400 + (if y mod 400 = 0 then 1 else 0)"
    using div_succ [of 400 "y - 1601"] m400 by (simp add: algebra_simps)
  have d: "y mod 100 = 0 \<Longrightarrow> y mod 4 = 0"
    by (rule mod_zero_trans [of y 100 4]) simp_all
  have e: "y mod 400 = 0 \<Longrightarrow> y mod 100 = 0"
    by (rule mod_zero_trans [of y 400 100]) simp_all
  have "DayFromYear (y + 1) =
      365 * (y - 1970) + 365 + (y + 1 - 1969) div 4 - (y + 1 - 1901) div 100
        + (y + 1 - 1601) div 400"
    unfolding DayFromYear_def by simp
  also have "\<dots> = DayFromYear y + (365 + (if y mod 4 = 0 then 1 else 0)
       - (if y mod 100 = 0 then 1 else 0) + (if y mod 400 = 0 then 1 else 0))"
    unfolding a b c DayFromYear_def by simp
  also have "(365 + (if y mod 4 = 0 then 1 else 0)
       - (if y mod 100 = 0 then 1 else 0) + (if y mod 400 = 0 then 1 else 0)) = DaysInYear y"
    unfolding DaysInYear_def using d e by auto
  finally show ?thesis .
qed

lemma DayFromYear_linear:
  "146097 * y - 287811596 \<le> 400 * DayFromYear y \<and>
   400 * DayFromYear y \<le> 146097 * y - 287810501"
proof -
  define a where "a = (y - 1969) div 4"
  define b where "b = (y - 1901) div 100"
  define c where "c = (y - 1601) div 400"
  have q: "4 * a \<le> y - 1969" "y - 1969 < 4 * a + 4"
    "100 * b \<le> y - 1901" "y - 1901 < 100 * b + 100"
    "400 * c \<le> y - 1601" "y - 1601 < 400 * c + 400"
    unfolding a_def b_def c_def by (rule div_bounds, simp)+
  have "400 * DayFromYear y = 146000 * y - 287620000 + 400 * a - 400 * b + 400 * c"
    unfolding DayFromYear_def a_def b_def c_def by (simp add: algebra_simps)
  with q show ?thesis by linarith
qed

lemma YearFromDay_bounds:
  "DayFromYear (YearFromDay d) \<le> d \<and> d < DayFromYear (YearFromDay d + 1)"
proof -
  define e where "e = (400 * d) div 146097"
  define ylo where "ylo = 1970 + e - 1"
  define yhi where "yhi = 1970 + e + 1 + 1"
  have e: "146097 * e \<le> 400 * d" "400 * d < 146097 * e + 146097"
    unfolding e_def using div_bounds [of 146097 "400 * d"] by simp_all
  have "400 * DayFromYear ylo \<le> 146097 * ylo - 287810501"
    using DayFromYear_linear [of ylo] by simp
  moreover have "146097 * ylo = 146097 * e + 287664993"
    unfolding ylo_def by simp
  ultimately have u: "DayFromYear ylo \<le> d" using e by linarith
  have "146097 * yhi - 287811596 \<le> 400 * DayFromYear yhi"
    using DayFromYear_linear [of yhi] by simp
  moreover have "146097 * yhi = 146097 * e + 288103284"
    unfolding yhi_def by simp
  ultimately have l: "d < DayFromYear yhi" using e by linarith
  show ?thesis
    unfolding YearFromDay_def Let_def e_def [symmetric]
    using u l unfolding ylo_def yhi_def by auto
qed

lemma DaysInYear_cases: "DaysInYear y = 365 \<or> DaysInYear y = 366"
  unfolding DaysInYear_def by simp

lemma InLeapYear_cases: "InLeapYear y = 0 \<or> InLeapYear y = 1"
  unfolding InLeapYear_def by simp

lemma DaysInYear_InLeapYear: "DaysInYear y = 365 + InLeapYear y"
  unfolding InLeapYear_def using DaysInYear_cases [of y] by auto

lemma DayFromYear_less: "DayFromYear y < DayFromYear (y + 1)"
  using DayFromYear_step [of y] DaysInYear_cases [of y] by linarith

lemma DayFromYear_mono_nat: "DayFromYear y \<le> DayFromYear (y + int k)"
proof (induction k)
  case 0
  show ?case by simp
next
  case (Suc k)
  have "DayFromYear (y + int k) < DayFromYear (y + int k + 1)"
    by (rule DayFromYear_less)
  moreover have "y + int (Suc k) = y + int k + 1" by simp
  ultimately show ?case using Suc by (simp only: order.trans [OF _ less_imp_le])
qed

lemma DayFromYear_mono:
  assumes "a \<le> b"
  shows "DayFromYear a \<le> DayFromYear b"
proof -
  have "b = a + int (nat (b - a))" using assms by simp
  then show ?thesis using DayFromYear_mono_nat [of a "nat (b - a)"] by simp
qed

lemma YearFromDay_unique:
  assumes "DayFromYear y \<le> d" and "d < DayFromYear (y + 1)"
  shows "YearFromDay d = y"
proof (rule ccontr)
  assume ne: "YearFromDay d \<noteq> y"
  note b = YearFromDay_bounds [of d]
  show False
  proof (cases "YearFromDay d < y")
    case True
    then have "DayFromYear (YearFromDay d + 1) \<le> DayFromYear y"
      by (intro DayFromYear_mono) simp
    with b assms show False by linarith
  next
    case False
    with ne have "y + 1 \<le> YearFromDay d" by simp
    then have "DayFromYear (y + 1) \<le> DayFromYear (YearFromDay d)"
      by (rule DayFromYear_mono)
    with b assms show False by linarith
  qed
qed

lemma DayWithinYear_range:
  "0 \<le> DayWithinYear d \<and> DayWithinYear d < 365 + InLeapYear (YearFromDay d)"
  unfolding DayWithinYear_def
  using YearFromDay_bounds [of d] DayFromYear_step [of "YearFromDay d"]
    DaysInYear_InLeapYear [of "YearFromDay d"]
  by linarith

lemma DaysBeforeMonth_simps:
  "DaysBeforeMonth 0 l = 0" "DaysBeforeMonth 1 l = 31" "DaysBeforeMonth 2 l = 59 + l"
  "DaysBeforeMonth 3 l = 90 + l" "DaysBeforeMonth 4 l = 120 + l" "DaysBeforeMonth 5 l = 151 + l"
  "DaysBeforeMonth 6 l = 181 + l" "DaysBeforeMonth 7 l = 212 + l" "DaysBeforeMonth 8 l = 243 + l"
  "DaysBeforeMonth 9 l = 273 + l" "DaysBeforeMonth 10 l = 304 + l"
  "DaysBeforeMonth 11 l = 334 + l" "DaysBeforeMonth 12 l = 365 + l"
  unfolding DaysBeforeMonth_def by simp_all

lemma MonthFromDay_range: "0 \<le> MonthFromDay d \<and> MonthFromDay d \<le> 11"
  unfolding MonthFromDay_def Let_def by simp

lemma MonthFromDay_bounds:
  "DaysBeforeMonth (MonthFromDay d) (InLeapYear (YearFromDay d)) \<le> DayWithinYear d \<and>
   DayWithinYear d < DaysBeforeMonth (MonthFromDay d + 1) (InLeapYear (YearFromDay d))"
proof -
  define n where "n = DayWithinYear d"
  define l where "l = InLeapYear (YearFromDay d)"
  have r: "0 \<le> n" "n < 365 + l"
    using DayWithinYear_range [of d] unfolding n_def l_def by simp_all
  have l: "0 \<le> l" "l \<le> 1" using InLeapYear_cases [of "YearFromDay d"] unfolding l_def by auto
  show ?thesis
    unfolding MonthFromDay_def Let_def n_def [symmetric] l_def [symmetric]
    using r l by (simp add: DaysBeforeMonth_simps)
qed

text \<open>The twelve months, for proofs by cases.\<close>

lemma month_cases:
  fixes m :: int
  assumes "0 \<le> m" "m \<le> 11"
  shows "m = 0 \<or> m = 1 \<or> m = 2 \<or> m = 3 \<or> m = 4 \<or> m = 5 \<or> m = 6 \<or> m = 7 \<or> m = 8
      \<or> m = 9 \<or> m = 10 \<or> m = 11"
  using assms by presburger

lemma MonthFromDay_unique:
  assumes "0 \<le> m" "m \<le> 11"
    and "DaysBeforeMonth m (InLeapYear (YearFromDay d)) \<le> DayWithinYear d"
    and "DayWithinYear d < DaysBeforeMonth (m + 1) (InLeapYear (YearFromDay d))"
  shows "MonthFromDay d = m"
proof -
  define n where "n = DayWithinYear d"
  define l where "l = InLeapYear (YearFromDay d)"
  have l: "0 \<le> l" "l \<le> 1" using InLeapYear_cases [of "YearFromDay d"] unfolding l_def by auto
  note m = month_cases [OF assms(1,2)]
  have b: "DaysBeforeMonth m l \<le> n" "n < DaysBeforeMonth (m + 1) l"
    using assms(3,4) unfolding n_def l_def by simp_all
  have "(let n = n; l = l
      in if n < 31 then 0
         else if n < 59 + l then 1
         else if n < 90 + l then 2
         else if n < 120 + l then 3
         else if n < 151 + l then 4
         else if n < 181 + l then 5
         else if n < 212 + l then 6
         else if n < 243 + l then 7
         else if n < 273 + l then 8
         else if n < 304 + l then 9
         else if n < 334 + l then 10
         else 11) = m"
    using m b l unfolding Let_def
    by (elim disjE) (simp_all add: DaysBeforeMonth_simps)
  then show ?thesis
    unfolding MonthFromDay_def n_def l_def .
qed

lemma Day_MakeDate:
  assumes "0 \<le> time" "time < msPerDay"
  shows "Day (MakeDate day time) = day" and "TimeWithinDay (MakeDate day time) = time"
proof -
  have eq: "MakeDate day time = msPerDay * day + time"
    unfolding MakeDate_def by (simp add: mult.commute)
  show "Day (MakeDate day time) = day"
    unfolding Day_def using int_div_pos_eq [OF eq assms] .
  show "TimeWithinDay (MakeDate day time) = time"
    unfolding TimeWithinDay_def using int_mod_pos_eq [OF eq assms] .
qed

lemma TimeWithinDay_range: "0 \<le> TimeWithinDay t \<and> TimeWithinDay t < msPerDay"
  unfolding TimeWithinDay_def msPerDay_def by simp

lemma MakeDate_Day: "MakeDate (Day t) (TimeWithinDay t) = t"
  unfolding MakeDate_def Day_def TimeWithinDay_def by simp

lemma MakeDay_own_month:
  "MakeDay (YearFromDay d) (MonthFromDay d) date = d - DateFromDay d + date"
proof -
  have "MonthFromDay d div 12 = 0" "MonthFromDay d mod 12 = MonthFromDay d"
    using MonthFromDay_range [of d] by simp_all
  then show ?thesis
    unfolding MakeDay_def Let_def DateFromDay_def DayWithinYear_def by simp
qed

lemma setDate_eq: "setDate t date = t + (date - getDate t) * msPerDay"
proof -
  have "setDate t date = MakeDate (Day t - getDate t + date) (TimeWithinDay t)"
    unfolding setDate_def getFullYear_def getMonth_def getDate_def
    by (simp add: MakeDay_own_month)
  also have "\<dots> = MakeDate (Day t) (TimeWithinDay t) + (date - getDate t) * msPerDay"
    unfolding MakeDate_def by (simp add: algebra_simps)
  finally show ?thesis by (simp add: MakeDate_Day)
qed

lemma Day_add_days: "Day (t + n * msPerDay) = Day t + n"
  unfolding Day_def msPerDay_def by simp

lemma TimeWithinDay_add_days: "TimeWithinDay (t + n * msPerDay) = TimeWithinDay t"
  unfolding TimeWithinDay_def msPerDay_def by simp

lemma MakeDay_fields:
  assumes "0 \<le> m" "m \<le> 11" "1 \<le> date"
    and "date \<le> DaysBeforeMonth (m + 1) (InLeapYear y) - DaysBeforeMonth m (InLeapYear y)"
  shows "YearFromDay (MakeDay y m date) = y"
    and "MonthFromDay (MakeDay y m date) = m"
    and "DateFromDay (MakeDay y m date) = date"
proof -
  define l where "l = InLeapYear y"
  define D where "D = MakeDay y m date"
  have l: "0 \<le> l" "l \<le> 1" using InLeapYear_cases [of y] unfolding l_def by auto
  have mm: "m div 12 = 0" "m mod 12 = m" using assms(1,2) by simp_all
  have D: "D = DayFromYear y + DaysBeforeMonth m l + date - 1"
    unfolding D_def MakeDay_def Let_def l_def mm by simp
  note m = month_cases [OF assms(1,2)]
  have lo: "0 \<le> DaysBeforeMonth m l"
    using m l by (elim disjE) (simp_all add: DaysBeforeMonth_simps)
  have hi: "DaysBeforeMonth (m + 1) l \<le> 365 + l"
    using m l by (elim disjE) (simp_all add: DaysBeforeMonth_simps)
  have d4: "date \<le> DaysBeforeMonth (m + 1) l - DaysBeforeMonth m l"
    using assms(4) unfolding l_def .
  have "DayFromYear y \<le> D" using D lo assms(3) by linarith
  moreover have "D < DayFromYear (y + 1)"
    using D hi d4 DayFromYear_step [of y] DaysInYear_InLeapYear [of y] unfolding l_def
    by linarith
  ultimately have Y: "YearFromDay D = y" by (rule YearFromDay_unique)
  have n: "DayWithinYear D = DaysBeforeMonth m l + date - 1"
    unfolding DayWithinYear_def Y using D by simp
  have M: "MonthFromDay D = m"
  proof (rule MonthFromDay_unique [OF assms(1,2)])
    show "DaysBeforeMonth m (InLeapYear (YearFromDay D)) \<le> DayWithinYear D"
      unfolding Y n l_def [symmetric] using assms(3) by simp
    show "DayWithinYear D < DaysBeforeMonth (m + 1) (InLeapYear (YearFromDay D))"
      unfolding Y n l_def [symmetric] using d4 by simp
  qed
  show "YearFromDay (MakeDay y m date) = y" using Y unfolding D_def .
  show "MonthFromDay (MakeDay y m date) = m" using M unfolding D_def .
  show "DateFromDay (MakeDay y m date) = date"
    unfolding D_def [symmetric] DateFromDay_def M Y n l_def [symmetric] by simp
qed

section \<open>The date-fns functions the component imports\<close>

text \<open>
  date-fns is an external library; each function below follows its implementation
  (date-fns 3) on valid dates. \<^verbatim>\<open>startOfWeek\<close> and \<^verbatim>\<open>endOfWeek\<close> take the option
  \<^verbatim>\<open>weekStartsOn\<close> as their second argument; the component always passes 1 (Monday).
\<close>

definition startOfDay :: "Date \<Rightarrow> Date" where
  "startOfDay date = setHours date 0 0 0 0"

definition startOfMonth :: "Date \<Rightarrow> Date" where
  "startOfMonth date = setHours (setDate date 1) 0 0 0 0"

definition endOfMonth :: "Date \<Rightarrow> Date" where
  "endOfMonth date =
     (let month = getMonth date
      in setHours (setFullYear date (getFullYear date) (month + 1) 0) 23 59 59 999)"

definition startOfWeek :: "Date \<Rightarrow> int \<Rightarrow> Date" where
  "startOfWeek date weekStartsOn =
     (let day = getDay date;
          diff = (if day < weekStartsOn then 7 else 0) + day - weekStartsOn
      in setHours (setDate date (getDate date - diff)) 0 0 0 0)"

definition endOfWeek :: "Date \<Rightarrow> int \<Rightarrow> Date" where
  "endOfWeek date weekStartsOn =
     (let day = getDay date;
          diff = (if day < weekStartsOn then - 7 else 0) + 6 - (day - weekStartsOn)
      in setHours (setDate date (getDate date + diff)) 23 59 59 999)"

definition addDays :: "Date \<Rightarrow> int \<Rightarrow> Date" where
  "addDays date amount =
     (if amount = 0 then date else setDate date (getDate date + amount))"

definition addMonths :: "Date \<Rightarrow> int \<Rightarrow> Date" where
  "addMonths date amount =
     (if amount = 0 then date
      else
        let dayOfMonth = getDate date;
            endOfDesiredMonth = setMonth date (getMonth date + amount + 1) 0;
            daysInMonth = getDate endOfDesiredMonth
        in if dayOfMonth \<ge> daysInMonth then endOfDesiredMonth
           else setFullYear date (getFullYear endOfDesiredMonth)
                  (getMonth endOfDesiredMonth) dayOfMonth)"

definition subMonths :: "Date \<Rightarrow> int \<Rightarrow> Date" where
  "subMonths date amount = addMonths date (- amount)"

definition isSameMonth :: "Date \<Rightarrow> Date \<Rightarrow> bool" where
  "isSameMonth dateLeft dateRight =
     (getFullYear dateLeft = getFullYear dateRight \<and> getMonth dateLeft = getMonth dateRight)"

definition isSameDay :: "Date \<Rightarrow> Date \<Rightarrow> bool" where
  "isSameDay dateLeft dateRight = (startOfDay dateLeft = startOfDay dateRight)"

definition isBefore :: "Date \<Rightarrow> Date \<Rightarrow> bool" where
  "isBefore date dateToCompare = (date < dateToCompare)"

text \<open>
  \<^verbatim>\<open>isWithinInterval(date, {start, end})\<close> of date-fns 3 orders the two bounds before it
  compares (date-fns 2 raises a \<^verbatim>\<open>RangeError\<close> when \<open>end < start\<close>). The versions agree on
  every interval with \<open>start \<le> end\<close>.
\<close>

definition isWithinInterval :: "Date \<Rightarrow> Date \<Rightarrow> Date \<Rightarrow> bool" where
  "isWithinInterval date start end' =
     (let startTime = min start end'; endTime = max start end'
      in date \<ge> startTime \<and> date \<le> endTime)"

definition differenceInCalendarDays :: "Date \<Rightarrow> Date \<Rightarrow> int" where
  "differenceInCalendarDays dateLeft dateRight =
     (startOfDay dateLeft - startOfDay dateRight) div msPerDay"

text \<open>
  \<^verbatim>\<open>compareLocalAsc\<close> takes the first non-zero difference of the local fields, year first.
  The four time fields (hours, minutes, seconds, milliseconds) are compared through the
  time within the day, which orders them in the same way.
\<close>

definition compareLocalAsc :: "Date \<Rightarrow> Date \<Rightarrow> int" where
  "compareLocalAsc dateLeft dateRight =
     (let diff =
        (if getFullYear dateLeft - getFullYear dateRight \<noteq> 0
           then getFullYear dateLeft - getFullYear dateRight
         else if getMonth dateLeft - getMonth dateRight \<noteq> 0
           then getMonth dateLeft - getMonth dateRight
         else if getDate dateLeft - getDate dateRight \<noteq> 0
           then getDate dateLeft - getDate dateRight
         else TimeWithinDay dateLeft - TimeWithinDay dateRight)
      in if diff < 0 then - 1 else if diff > 0 then 1 else diff)"

definition differenceInDays :: "Date \<Rightarrow> Date \<Rightarrow> int" where
  "differenceInDays dateLeft dateRight =
     (let sign = compareLocalAsc dateLeft dateRight;
          difference = \<bar>differenceInCalendarDays dateLeft dateRight\<bar>;
          shifted = setDate dateLeft (getDate dateLeft - sign * difference);
          isLastDayNotFull = (if compareLocalAsc shifted dateRight = - sign then 1 else 0)
      in sign * (difference - isLastDayNotFull))"

subsection \<open>Facts about the date-fns functions\<close>

lemma addDays_eq: "addDays t n = t + n * msPerDay"
  unfolding addDays_def by (simp add: setDate_eq)

lemma MakeTime_zero: "MakeTime 0 0 0 0 = 0"
  unfolding MakeTime_def by simp

lemma MakeTime_last: "MakeTime 23 59 59 999 = msPerDay - 1"
  unfolding MakeTime_def msPerDay_def by simp

lemma startOfDay_eq: "startOfDay t = Day t * msPerDay"
  unfolding startOfDay_def setHours_def MakeDate_def MakeTime_zero by simp

lemma Day_midnight: "Day (k * msPerDay) = k"
  unfolding Day_def msPerDay_def by simp

lemma TimeWithinDay_midnight: "TimeWithinDay (k * msPerDay) = 0"
  unfolding TimeWithinDay_def msPerDay_def by simp

lemma Day_last_ms: "Day (k * msPerDay + (msPerDay - 1)) = k"
  using Day_MakeDate(1) [of "msPerDay - 1" k] unfolding MakeDate_def msPerDay_def by simp

lemma Day_first_of_month:
  "Day t - getDate t + 1 =
     DayFromYear (getFullYear t) + DaysBeforeMonth (getMonth t) (InLeapYear (getFullYear t))"
  unfolding getDate_def getFullYear_def getMonth_def DateFromDay_def DayWithinYear_def
  by simp

lemma startOfMonth_eq: "startOfMonth t = (Day t - getDate t + 1) * msPerDay"
proof -
  have "Day (setDate t 1) = Day t + (1 - getDate t)"
    unfolding setDate_eq by (rule Day_add_days)
  then show ?thesis
    unfolding startOfMonth_def setHours_def MakeDate_def MakeTime_zero by simp
qed

lemma month_length_pos:
  assumes "0 \<le> m" "m \<le> 11"
  shows "1 \<le> DaysBeforeMonth (m + 1) (InLeapYear y) - DaysBeforeMonth m (InLeapYear y)"
proof -
  have l: "0 \<le> InLeapYear y" "InLeapYear y \<le> 1" using InLeapYear_cases [of y] by auto
  note m = month_cases [OF assms(1,2)]
  show ?thesis
    using m l by (elim disjE) (simp_all add: DaysBeforeMonth_simps)
qed

lemma startOfMonth_fields:
  "getFullYear (startOfMonth t) = getFullYear t"
  "getMonth (startOfMonth t) = getMonth t"
  "getDate (startOfMonth t) = 1"
proof -
  define y where "y = getFullYear t"
  define m where "m = getMonth t"
  have m: "0 \<le> m" "m \<le> 11"
    unfolding m_def getMonth_def using MonthFromDay_range [of "Day t"] by simp_all
  have "Day (startOfMonth t) = DayFromYear y + DaysBeforeMonth m (InLeapYear y)"
    unfolding startOfMonth_eq Day_midnight y_def m_def by (rule Day_first_of_month)
  also have "\<dots> = MakeDay y m 1"
    unfolding MakeDay_def Let_def using m by simp
  finally have D: "Day (startOfMonth t) = MakeDay y m 1" .
  note f = MakeDay_fields [OF m order_refl month_length_pos [OF m], of y]
  show "getFullYear (startOfMonth t) = getFullYear t"
    unfolding getFullYear_def D using f(1) unfolding y_def getFullYear_def .
  show "getMonth (startOfMonth t) = getMonth t"
    unfolding getMonth_def D using f(2) unfolding m_def getMonth_def .
  show "getDate (startOfMonth t) = 1"
    unfolding getDate_def D using f(3) .
qed

lemma MakeDay_next_month_zero:
  assumes "0 \<le> m" "m \<le> 11"
  shows "MakeDay y (m + 1) 0 = DayFromYear y + DaysBeforeMonth (m + 1) (InLeapYear y) - 1"
proof (cases "m = 11")
  case True
  then show ?thesis
    unfolding MakeDay_def Let_def
    using DayFromYear_step [of y] DaysInYear_InLeapYear [of y]
    by (simp add: DaysBeforeMonth_simps)
next
  case False
  then have "(m + 1) div 12 = 0" "(m + 1) mod 12 = m + 1" using assms by simp_all
  then show ?thesis unfolding MakeDay_def Let_def by simp
qed

lemma endOfMonth_eq:
  "endOfMonth t =
     (DayFromYear (getFullYear t) + DaysBeforeMonth (getMonth t + 1) (InLeapYear (getFullYear t)) - 1)
       * msPerDay + (msPerDay - 1)"
proof -
  have m: "0 \<le> getMonth t" "getMonth t \<le> 11"
    unfolding getMonth_def using MonthFromDay_range [of "Day t"] by simp_all
  have "Day (setFullYear t (getFullYear t) (getMonth t + 1) 0)
      = MakeDay (getFullYear t) (getMonth t + 1) 0"
    unfolding setFullYear_def using TimeWithinDay_range [of t] by (simp add: Day_MakeDate)
  then show ?thesis
    unfolding endOfMonth_def Let_def setHours_def MakeTime_last MakeDate_def
    by (simp add: MakeDay_next_month_zero [OF m])
qed

lemma startOfWeek_eq:
  "startOfWeek t 1 = (Day t - (WeekDay (Day t) + 6) mod 7) * msPerDay"
proof -
  define w where "w = WeekDay (Day t)"
  have w: "0 \<le> w" "w < 7" unfolding w_def WeekDay_def by simp_all
  have diff: "(if w < 1 then 7 else 0) + w - 1 = (w + 6) mod 7"
    using w by presburger
  have "Day (setDate t (getDate t - (w + 6) mod 7)) = Day t - (w + 6) mod 7"
    unfolding setDate_eq using Day_add_days [of t "- ((w + 6) mod 7)"] by simp
  then show ?thesis
    unfolding startOfWeek_def Let_def getDay_def w_def [symmetric] diff
      setHours_def MakeDate_def MakeTime_zero by simp
qed

lemma endOfWeek_eq:
  "endOfWeek t 1 = (Day t + (7 - WeekDay (Day t)) mod 7) * msPerDay + (msPerDay - 1)"
proof -
  define w where "w = WeekDay (Day t)"
  have w: "0 \<le> w" "w < 7" unfolding w_def WeekDay_def by simp_all
  have diff: "(if w < 1 then - 7 else 0) + 6 - (w - 1) = (7 - w) mod 7"
    using w by presburger
  have "Day (setDate t (getDate t + (7 - w) mod 7)) = Day t + (7 - w) mod 7"
    unfolding setDate_eq using Day_add_days [of t "(7 - w) mod 7"] by simp
  then show ?thesis
    unfolding endOfWeek_def Let_def getDay_def w_def [symmetric] diff
      setHours_def MakeDate_def MakeTime_last by simp
qed

lemma WeekDay_monday: "WeekDay (d - (WeekDay d + 6) mod 7) = 1"
  unfolding WeekDay_def by presburger

lemma WeekDay_sunday: "WeekDay (d + (7 - WeekDay d) mod 7) = 0"
  unfolding WeekDay_def by presburger

lemma week_span: "(d2 + (7 - WeekDay d2) mod 7) - (d1 - (WeekDay d1 + 6) mod 7) + 1 = 
   7 * (((d2 + (7 - WeekDay d2) mod 7) - (d1 - (WeekDay d1 + 6) mod 7) + 1) div 7)"
  unfolding WeekDay_def by presburger

subsection \<open>Adding months\<close>

text \<open>
  The months of the calendar numbered consecutively: twelve per year, January of year 0
  being month 0. Two dates are in the same month exactly when they have the same number.
\<close>

definition monthIndex :: "Date \<Rightarrow> int" where
  "monthIndex t = 12 * getFullYear t + getMonth t"

lemma DateFromDay_pos: "1 \<le> DateFromDay d"
  unfolding DateFromDay_def using MonthFromDay_bounds [of d] by linarith

lemma MakeDay_carry:
  "MakeDay y (M + 1) 0 = MakeDay (y + M div 12) (M mod 12 + 1) 0"
proof -
  have "(M + 1) div 12 = M div 12 + (M mod 12 + 1) div 12"
    using div_add1_eq [of M 1 12] by simp
  moreover have "(M + 1) mod 12 = (M mod 12 + 1) mod 12"
    by (simp add: mod_add_left_eq)
  ultimately show ?thesis
    unfolding MakeDay_def Let_def by (simp add: add.assoc)
qed

lemma MakeDay_last_of_month:
  assumes "0 \<le> m" "m \<le> 11"
  shows "MakeDay y (m + 1) 0 =
     MakeDay y m (DaysBeforeMonth (m + 1) (InLeapYear y) - DaysBeforeMonth m (InLeapYear y))"
proof -
  have "m div 12 = 0" "m mod 12 = m" using assms by simp_all
  then have "MakeDay y m (DaysBeforeMonth (m + 1) (InLeapYear y) - DaysBeforeMonth m (InLeapYear y))
      = DayFromYear y + DaysBeforeMonth (m + 1) (InLeapYear y) - 1"
    unfolding MakeDay_def Let_def by simp
  then show ?thesis using MakeDay_next_month_zero [OF assms, of y] by simp
qed

lemma addMonths_fields:
  assumes "amount \<noteq> 0"
  shows "getFullYear (addMonths t amount) = getFullYear t + (getMonth t + amount) div 12"
    and "getMonth (addMonths t amount) = (getMonth t + amount) mod 12"
proof -
  define y where "y = getFullYear t + (getMonth t + amount) div 12"
  define m where "m = (getMonth t + amount) mod 12"
  define len where "len = DaysBeforeMonth (m + 1) (InLeapYear y) - DaysBeforeMonth m (InLeapYear y)"
  define e where "e = setMonth t (getMonth t + amount + 1) 0"
  have m: "0 \<le> m" "m \<le> 11" unfolding m_def by simp_all
  have len: "1 \<le> len" unfolding len_def by (rule month_length_pos [OF m])
  have tw: "0 \<le> TimeWithinDay t" "TimeWithinDay t < msPerDay"
    using TimeWithinDay_range [of t] by simp_all
  have "Day e = MakeDay (getFullYear t) (getMonth t + amount + 1) 0"
    unfolding e_def setMonth_def by (rule Day_MakeDate(1) [OF tw])
  also have "\<dots> = MakeDay y (m + 1) 0"
    unfolding y_def m_def by (rule MakeDay_carry)
  also have "\<dots> = MakeDay y m len"
    unfolding len_def by (rule MakeDay_last_of_month [OF m])
  finally have De: "Day e = MakeDay y m len" .
  have le: "len \<le> DaysBeforeMonth (m + 1) (InLeapYear y) - DaysBeforeMonth m (InLeapYear y)"
    unfolding len_def by simp
  note fe = MakeDay_fields [OF m len le]
  have e_fields: "getFullYear e = y" "getMonth e = m" "getDate e = len"
    unfolding getFullYear_def getMonth_def getDate_def De using fe by simp_all
  show "getFullYear (addMonths t amount) = getFullYear t + (getMonth t + amount) div 12"
    and "getMonth (addMonths t amount) = (getMonth t + amount) mod 12"
  proof -
    have both: "getFullYear (addMonths t amount) = y \<and> getMonth (addMonths t amount) = m"
    proof (cases "getDate t \<ge> len")
      case True
      then have "addMonths t amount = e"
        unfolding addMonths_def Let_def e_def [symmetric] e_fields using assms by simp
      then show ?thesis using e_fields by simp
    next
      case False
      then have r: "addMonths t amount = setFullYear t y m (getDate t)"
        unfolding addMonths_def Let_def e_def [symmetric] e_fields using assms by simp
      have d1: "1 \<le> getDate t" unfolding getDate_def by (rule DateFromDay_pos)
      have d2: "getDate t \<le> DaysBeforeMonth (m + 1) (InLeapYear y) - DaysBeforeMonth m (InLeapYear y)"
        using False unfolding len_def by simp
      have "Day (setFullYear t y m (getDate t)) = MakeDay y m (getDate t)"
        unfolding setFullYear_def by (rule Day_MakeDate(1) [OF tw])
      then show ?thesis
        unfolding r getFullYear_def getMonth_def
        using MakeDay_fields(1,2) [OF m d1 d2] by simp
    qed
    show "getFullYear (addMonths t amount) = getFullYear t + (getMonth t + amount) div 12"
      using both unfolding y_def by simp
    show "getMonth (addMonths t amount) = (getMonth t + amount) mod 12"
      using both unfolding m_def by simp
  qed
qed

lemma monthIndex_addMonths: "monthIndex (addMonths t amount) = monthIndex t + amount"
proof (cases "amount = 0")
  case True
  then show ?thesis unfolding addMonths_def by simp
next
  case False
  define X where "X = getMonth t + amount"
  have "12 * (getFullYear t + X div 12) + X mod 12
      = 12 * getFullYear t + (12 * (X div 12) + X mod 12)"
    by (simp only: distrib_left add.assoc)
  also have "\<dots> = 12 * getFullYear t + X"
    by (simp only: mult_div_mod_eq)
  finally show ?thesis
    unfolding monthIndex_def addMonths_fields [OF False] X_def
    by (simp only: add.assoc)
qed

subsection \<open>The order of dates and \<^verbatim>\<open>differenceInDays\<close>\<close>

lemma YearFromDay_mono:
  assumes "d1 \<le> d2"
  shows "YearFromDay d1 \<le> YearFromDay d2"
proof (rule ccontr)
  assume "\<not> YearFromDay d1 \<le> YearFromDay d2"
  then have "YearFromDay d2 + 1 \<le> YearFromDay d1" by simp
  then have "DayFromYear (YearFromDay d2 + 1) \<le> DayFromYear (YearFromDay d1)"
    by (rule DayFromYear_mono)
  with YearFromDay_bounds [of d1] YearFromDay_bounds [of d2] assms show False by linarith
qed

lemma DaysBeforeMonth_step:
  assumes "0 \<le> m" "m \<le> 11" "0 \<le> l" "l \<le> 1"
  shows "DaysBeforeMonth m l < DaysBeforeMonth (m + 1) l"
proof -
  note m = month_cases [OF assms(1,2)]
  show ?thesis
    using m assms(3,4) by (elim disjE) (simp_all add: DaysBeforeMonth_simps)
qed

lemma DaysBeforeMonth_mono_nat:
  assumes "0 \<le> m" "m + int k \<le> 12" "0 \<le> l" "l \<le> 1"
  shows "DaysBeforeMonth m l \<le> DaysBeforeMonth (m + int k) l"
  using assms(2)
proof (induction k)
  case 0
  show ?case by simp
next
  case (Suc k)
  have le: "m + int k \<le> 11" using Suc.prems by simp
  have "DaysBeforeMonth (m + int k) l < DaysBeforeMonth (m + int k + 1) l"
    by (rule DaysBeforeMonth_step) (use assms(1,3,4) le in simp_all)
  moreover have "m + int (Suc k) = m + int k + 1" by simp
  moreover have "DaysBeforeMonth m l \<le> DaysBeforeMonth (m + int k) l"
    using Suc.IH le by simp
  ultimately show ?case by (simp only: order.trans [OF _ less_imp_le])
qed

lemma DaysBeforeMonth_mono:
  assumes "0 \<le> a" "a \<le> b" "b \<le> 12" "0 \<le> l" "l \<le> 1"
  shows "DaysBeforeMonth a l \<le> DaysBeforeMonth b l"
proof -
  have b: "b = a + int (nat (b - a))" using assms(2) by simp
  show ?thesis
    using DaysBeforeMonth_mono_nat [of a "nat (b - a)" l] assms b by simp
qed

text \<open>A later day has lexicographically larger calendar fields.\<close>

lemma fields_lex:
  assumes "d1 < d2"
  shows "YearFromDay d1 < YearFromDay d2
     \<or> (YearFromDay d1 = YearFromDay d2
         \<and> (MonthFromDay d1 < MonthFromDay d2
             \<or> (MonthFromDay d1 = MonthFromDay d2 \<and> DateFromDay d1 < DateFromDay d2)))"
proof (cases "YearFromDay d1 = YearFromDay d2")
  case False
  then show ?thesis using YearFromDay_mono [of d1 d2] assms by simp
next
  case True
  define l where "l = InLeapYear (YearFromDay d1)"
  have l: "0 \<le> l" "l \<le> 1" using InLeapYear_cases [of "YearFromDay d1"] unfolding l_def by auto
  have n: "DayWithinYear d1 < DayWithinYear d2"
    unfolding DayWithinYear_def True using assms by simp
  have b1: "DaysBeforeMonth (MonthFromDay d1) l \<le> DayWithinYear d1"
    "DayWithinYear d1 < DaysBeforeMonth (MonthFromDay d1 + 1) l"
    using MonthFromDay_bounds [of d1] unfolding l_def by simp_all
  have b2: "DaysBeforeMonth (MonthFromDay d2) l \<le> DayWithinYear d2"
    "DayWithinYear d2 < DaysBeforeMonth (MonthFromDay d2 + 1) l"
    using MonthFromDay_bounds [of d2] unfolding l_def True by simp_all
  have le: "MonthFromDay d1 \<le> MonthFromDay d2"
  proof (rule ccontr)
    assume "\<not> MonthFromDay d1 \<le> MonthFromDay d2"
    then have "MonthFromDay d2 + 1 \<le> MonthFromDay d1" by simp
    moreover have "0 \<le> MonthFromDay d2 + 1" "MonthFromDay d1 \<le> 12"
      using MonthFromDay_range [of d1] MonthFromDay_range [of d2] by simp_all
    ultimately have "DaysBeforeMonth (MonthFromDay d2 + 1) l \<le> DaysBeforeMonth (MonthFromDay d1) l"
      using l by (intro DaysBeforeMonth_mono) simp_all
    with b1 b2 n show False by linarith
  qed
  show ?thesis
  proof (cases "MonthFromDay d1 = MonthFromDay d2")
    case False
    with le True show ?thesis by simp
  next
    case m: True
    have "DateFromDay d1 < DateFromDay d2"
      unfolding DateFromDay_def m True [symmetric] using n True by simp
    with True m show ?thesis by simp
  qed
qed

lemma time_value_split: "t = Day t * msPerDay + TimeWithinDay t"
  unfolding Day_def TimeWithinDay_def by simp

lemma compareLocalAsc_less:
  assumes "a < b"
  shows "compareLocalAsc a b = - 1"
proof -
  have md: "0 < msPerDay" unfolding msPerDay_def by simp
  have "Day a \<le> Day b" unfolding Day_def using assms md by (simp add: zdiv_mono1)
  then consider "Day a = Day b" | "Day a < Day b" by linarith
  then show ?thesis
  proof cases
    case 1
    have "TimeWithinDay a < TimeWithinDay b"
      using time_value_split [of a] time_value_split [of b] assms 1 by simp
    then show ?thesis
      unfolding compareLocalAsc_def Let_def getFullYear_def getMonth_def getDate_def 1
      by simp
  next
    case 2
    from fields_lex [OF 2] show ?thesis
      unfolding compareLocalAsc_def Let_def getFullYear_def getMonth_def getDate_def
      by auto
  qed
qed

lemma compareLocalAsc_refl: "compareLocalAsc a a = 0"
  unfolding compareLocalAsc_def Let_def by simp

lemma compareLocalAsc_flip: "compareLocalAsc a b = - compareLocalAsc b a"
  unfolding compareLocalAsc_def Let_def by auto

lemma compareLocalAsc_greater:
  assumes "b < a"
  shows "compareLocalAsc a b = 1"
  using compareLocalAsc_less [OF assms] compareLocalAsc_flip [of a b] by simp

lemma differenceInCalendarDays_eq: "differenceInCalendarDays a b = Day a - Day b"
proof -
  have "(Day a * msPerDay - Day b * msPerDay) div msPerDay = Day a - Day b"
    using Day_midnight [of "Day a - Day b"] unfolding Day_def by (simp add: algebra_simps)
  then show ?thesis unfolding differenceInCalendarDays_def startOfDay_eq .
qed

text \<open>Between two midnights \<open>differenceInDays\<close> is the difference of the day numbers.\<close>

lemma differenceInDays_midnights:
  "differenceInDays (a * msPerDay) (b * msPerDay) = a - b"
proof -
  have md: "0 < msPerDay" unfolding msPerDay_def by simp
  consider "a < b" | "a = b" | "b < a" by linarith
  then show ?thesis
  proof cases
    case 1
    then have lt: "a * msPerDay < b * msPerDay" using md by simp
    have s: "compareLocalAsc (a * msPerDay) (b * msPerDay) = - 1"
      by (rule compareLocalAsc_less [OF lt])
    have sh: "setDate (a * msPerDay) (getDate (a * msPerDay) - - 1 * \<bar>a - b\<bar>) = b * msPerDay"
      unfolding setDate_eq using 1 by (simp add: algebra_simps)
    show ?thesis
      unfolding differenceInDays_def Let_def s differenceInCalendarDays_eq Day_midnight sh
        compareLocalAsc_refl
      using 1 by simp
  next
    case 2
    then show ?thesis
      unfolding differenceInDays_def Let_def differenceInCalendarDays_eq Day_midnight
      by (simp add: compareLocalAsc_refl)
  next
    case 3
    then have lt: "b * msPerDay < a * msPerDay" using md by simp
    have s: "compareLocalAsc (a * msPerDay) (b * msPerDay) = 1"
      by (rule compareLocalAsc_greater [OF lt])
    have sh: "setDate (a * msPerDay) (getDate (a * msPerDay) - 1 * \<bar>a - b\<bar>) = b * msPerDay"
      unfolding setDate_eq using 3 by (simp add: algebra_simps)
    show ?thesis
      unfolding differenceInDays_def Let_def s differenceInCalendarDays_eq Day_midnight sh
        compareLocalAsc_refl
      using 3 by simp
  qed
qed

section \<open>Formatting\<close>

text \<open>
  \<^verbatim>\<open>format(date, 'yyyy-MM-dd')\<close> and \<^verbatim>\<open>format(date, 'd')\<close> of date-fns: numeric tokens,
  written with \<^verbatim>\<open>addLeadingZeros\<close>. The token \<^verbatim>\<open>yyyy\<close> prints the year of the era: a
  year \<open>y \<le> 0\<close> prints as \<open>1 - y\<close>.
\<close>

definition digitChar :: "nat \<Rightarrow> char" where
  "digitChar n = ''0123456789'' ! n"

fun numberToString :: "nat \<Rightarrow> string" where
  "numberToString n =
     (if n < 10 then [digitChar n] else numberToString (n div 10) @ [digitChar (n mod 10)])"

definition padStart :: "string \<Rightarrow> nat \<Rightarrow> char \<Rightarrow> string" where
  "padStart s targetLength c = replicate (targetLength - length s) c @ s"

definition addLeadingZeros :: "int \<Rightarrow> nat \<Rightarrow> string" where
  "addLeadingZeros number targetLength =
     (let sign = (if number < 0 then ''-'' else []);
          output = padStart (numberToString (nat \<bar>number\<bar>)) targetLength (CHR ''0'')
      in sign @ output)"

definition format_yyyy :: "Date \<Rightarrow> string" where
  "format_yyyy date =
     (let signedYear = getFullYear date;
          year = (if signedYear > 0 then signedYear else 1 - signedYear)
      in addLeadingZeros year 4)"

definition format_MM :: "Date \<Rightarrow> string" where
  "format_MM date = addLeadingZeros (getMonth date + 1) 2"

definition format_dd :: "Date \<Rightarrow> string" where
  "format_dd date = addLeadingZeros (getDate date) 2"

definition format_d :: "Date \<Rightarrow> string" where
  "format_d date = addLeadingZeros (getDate date) 1"

definition format_yyyy_MM_dd :: "Date \<Rightarrow> string" where
  "format_yyyy_MM_dd date = format_yyyy date @ ''-'' @ format_MM date @ ''-'' @ format_dd date"

section \<open>The component: props, state and the availability rule\<close>

datatype Lang = It | En

text \<open>
  \<open>tripStart\<close> and \<open>tripEnd\<close> are the parsed season bounds
  \<^verbatim>\<open>parseISO(trip.availableFrom)\<close> and \<^verbatim>\<open>parseISO(trip.availableTo)\<close>, taken as valid dates.
\<close>

record Props =
  tripStart :: Date
  tripEnd :: Date
  lang :: Lang

text \<open>
  Modelled from the spec: the type \<^verbatim>\<open>WeatherData\<close> is declared by the weather service
  (\<^verbatim>\<open>../services/weatherService\<close>), whose source is not at hand; the spec gives it the
  fields \<open>weatherCode\<close>, \<open>minTemp\<close> and \<open>maxTemp\<close>, which are the fields the component reads.
\<close>

record WeatherData =
  weatherCode :: int
  minTemp :: real
  maxTemp :: real

record State =
  currentMonth :: Date
  selectedDate :: "Date option"
  weatherMap :: "string \<rightharpoonup> WeatherData"

text \<open>\<open>today\<close> is \<^verbatim>\<open>startOfDay(new Date())\<close>, recomputed at every render.\<close>

definition isDateAvailable :: "Props \<Rightarrow> Date \<Rightarrow> Date \<Rightarrow> bool" where
  "isDateAvailable props today date =
     (let inSeason = isWithinInterval date (tripStart props) (tripEnd props)
      in if \<not> inSeason then False
         else if isBefore date today then False
         else
           let dayOfWeek = getDay date
           in if dayOfWeek = 3 then False else True)"

definition handleDateClick :: "Props \<Rightarrow> Date \<Rightarrow> State \<Rightarrow> Date \<Rightarrow> State" where
  "handleDateClick props today st date =
     (if isDateAvailable props today date then st\<lparr>selectedDate := Some date\<rparr> else st)"

subsection \<open>Month navigation and confirmation\<close>

text \<open>The two header buttons of \<^verbatim>\<open>renderHeader\<close>.\<close>

definition prevMonthClick :: "State \<Rightarrow> State" where
  "prevMonthClick st = st\<lparr>currentMonth := subMonths (currentMonth st) 1\<rparr>"

definition nextMonthClick :: "State \<Rightarrow> State" where
  "nextMonthClick st = st\<lparr>currentMonth := addMonths (currentMonth st) 1\<rparr>"

text \<open>
  The callbacks the component receives as props. A handler returns the list of callback
  invocations it makes, in order.
\<close>

datatype Callback = OnConfirm string | OnClose

text \<open>
  The confirm button carries \<^verbatim>\<open>disabled={!selectedDate}\<close> and the handler
  \<^verbatim>\<open>() => selectedDate && onConfirm(format(selectedDate, 'yyyy-MM-dd'))\<close>. A disabled
  button dispatches no click. The handler does not read \<open>lang\<close>: this \<^verbatim>\<open>format\<close> call
  passes no locale.
\<close>

definition confirmDisabled :: "State \<Rightarrow> bool" where
  "confirmDisabled st = (selectedDate st = None)"

definition confirmClick :: "Props \<Rightarrow> State \<Rightarrow> Callback list" where
  "confirmClick props st =
     (if confirmDisabled st then []
      else case selectedDate st of
             None \<Rightarrow> []
           | Some date \<Rightarrow> [OnConfirm (format_yyyy_MM_dd date)])"

definition closeClick :: "Callback list" where
  "closeClick = [OnClose]"

subsection \<open>The calendar grid\<close>

text \<open>What \<^verbatim>\<open>renderCells\<close> computes for one day before it builds the cell's markup.\<close>

record Cell =
  formattedDate :: string
  dateStr :: string
  cloneDay :: Date
  isAvailable :: bool
  isSelected :: bool
  isCurrentMonth :: bool
  weather :: "WeatherData option"

definition renderCell :: "Props \<Rightarrow> Date \<Rightarrow> State \<Rightarrow> Date \<Rightarrow> Date \<Rightarrow> Cell" where
  "renderCell props today st monthStart day =
     \<lparr>formattedDate = format_d day,
      dateStr = format_yyyy_MM_dd day,
      cloneDay = day,
      isAvailable = isDateAvailable props today day,
      isSelected = (case selectedDate st of None \<Rightarrow> False | Some s \<Rightarrow> isSameDay day s),
      isCurrentMonth = isSameMonth day monthStart,
      weather = weatherMap st (format_yyyy_MM_dd day)\<rparr>"

text \<open>
  The inner \<^verbatim>\<open>for (let i = 0; i < 7; i++)\<close> loop; the numeric argument is the number of
  iterations still to run. It returns the week's cells and the advanced \<open>day\<close>.
\<close>

fun renderWeek :: "(Date \<Rightarrow> Cell) \<Rightarrow> nat \<Rightarrow> Date \<Rightarrow> Cell list \<Rightarrow> Cell list \<times> Date" where
  "renderWeek cell 0 day days = (days, day)"
| "renderWeek cell (Suc k) day days = renderWeek cell k (addDays day 1) (days @ [cell day])"

lemma renderWeek_day: "snd (renderWeek cell k day days) = day + int k * msPerDay"
  by (induction k arbitrary: day days) (simp_all add: addDays_eq algebra_simps)

text \<open>The outer \<^verbatim>\<open>while (day <= endDate)\<close> loop: one row of seven cells per round.\<close>

function renderRows :: "(Date \<Rightarrow> Cell) \<Rightarrow> Date \<Rightarrow> Date \<Rightarrow> Cell list list \<Rightarrow> Cell list list" where
  "renderRows cell endDate day rows =
     (if day \<le> endDate
      then renderRows cell endDate (snd (renderWeek cell 7 day []))
             (rows @ [fst (renderWeek cell 7 day [])])
      else rows)"
  by pat_completeness auto
termination
  by (relation "measure (\<lambda>(cell, endDate, day, rows). nat (endDate - day + 1))")
    (simp_all add: renderWeek_day msPerDay_def)

declare renderRows.simps [simp del]

definition renderCells :: "Props \<Rightarrow> Date \<Rightarrow> State \<Rightarrow> Cell list list" where
  "renderCells props today st =
     (let monthStart = startOfMonth (currentMonth st);
          monthEnd = endOfMonth monthStart;
          startDate = startOfWeek monthStart 1;
          endDate = endOfWeek monthEnd 1
      in renderRows (renderCell props today st monthStart) endDate startDate [])"

subsection \<open>The weather prefetch\<close>

text \<open>
  How a promise settles. \<^verbatim>\<open>fetchWeatherForecast\<close> belongs to the weather service, outside
  the component: a cycle takes the settlement of each call as a parameter, a function of
  the requested date string (latitude and longitude are fixed by the trip). A call
  fulfils with a forecast or with nothing (\<^verbatim>\<open>null\<close>), or it rejects.
\<close>

datatype 'a Settled = Fulfilled 'a | Rejected

type_synonym FetchWeatherForecast = "string \<Rightarrow> WeatherData option Settled"

text \<open>The \<^verbatim>\<open>while (day <= endDate)\<close> loop that collects \<^verbatim>\<open>daysToFetch\<close>.\<close>

function collectDays :: "Date \<Rightarrow> Date \<Rightarrow> Date \<Rightarrow> string list \<Rightarrow> string list" where
  "collectDays today endDate day daysToFetch =
     (if day \<le> endDate
      then
        let diff = differenceInDays day today
        in collectDays today endDate (addDays day 1)
             (if diff \<ge> 0 \<and> diff \<le> 13 then daysToFetch @ [format_yyyy_MM_dd day]
              else daysToFetch)
      else daysToFetch)"
  by pat_completeness auto
termination
  by (relation "measure (\<lambda>(today, endDate, day, daysToFetch). nat (endDate - day + 1))")
    (simp_all add: addDays_eq msPerDay_def)

declare collectDays.simps [simp del]

definition daysToFetch :: "Date \<Rightarrow> Date \<Rightarrow> string list" where
  "daysToFetch month today =
     (let monthStart = startOfMonth month;
          monthEnd = endOfMonth monthStart;
          startDate = startOfWeek monthStart 1;
          endDate = endOfWeek monthEnd 1
      in collectDays today endDate startDate [])"

text \<open>
  One run of \<^verbatim>\<open>loadWeatherForView\<close>. \<open>requests\<close> lists the calls of
  \<^verbatim>\<open>fetchWeatherForecast\<close> in the order they are issued: \<^verbatim>\<open>daysToFetch.map\<close> starts every
  callback before any of them resumes. \<^verbatim>\<open>Promise.all\<close> rejects as soon as one callback
  rejects, and the \<^verbatim>\<open>await\<close> then leaves \<^verbatim>\<open>loadWeatherForView\<close> before \<^verbatim>\<open>setWeatherMap\<close>;
  nothing in the component catches it. \<open>promise\<close> is the settlement of the promise
  \<^verbatim>\<open>loadWeatherForView()\<close> returns and \<open>after\<close> the state once it has settled.
\<close>

record Cycle =
  requests :: "string list"
  promise :: "unit Settled"
  after :: State

text \<open>
  The callback's \<^verbatim>\<open>if (w) newWeatherData[dateStr] = w\<close>, once its fetch has settled. The
  callbacks resume in the order their fetches settle; the keys they assign are distinct
  dates, so the resulting object does not depend on that order and the assignments are
  folded in the order of the requests.
\<close>

definition assign :: "FetchWeatherForecast \<Rightarrow> string \<Rightarrow> (string \<times> WeatherData) list
    \<Rightarrow> (string \<times> WeatherData) list" where
  "assign fetch key newWeatherData =
     (case fetch key of
        Fulfilled (Some w) \<Rightarrow> AList.update key w newWeatherData
      | Fulfilled None \<Rightarrow> newWeatherData
      | Rejected \<Rightarrow> newWeatherData)"

text \<open>The updater \<^verbatim>\<open>prev => ({ ...prev, ...newWeatherData })\<close> passed to \<^verbatim>\<open>setWeatherMap\<close>.\<close>

definition mergeWeather :: "(string \<times> WeatherData) list \<Rightarrow> (string \<rightharpoonup> WeatherData)
    \<Rightarrow> (string \<rightharpoonup> WeatherData)" where
  "mergeWeather newWeatherData prev = prev ++ map_of newWeatherData"

definition loadWeatherForView :: "FetchWeatherForecast \<Rightarrow> Date \<Rightarrow> State \<Rightarrow> Cycle" where
  "loadWeatherForView fetch today st =
     (let days = daysToFetch (currentMonth st) today
      in if length days = 0
         then \<lparr>requests = [], promise = Fulfilled (), after = st\<rparr>
         else
           let wanted = filter (\<lambda>dateStr. weatherMap st dateStr = None) days
           in if list_ex (\<lambda>dateStr. fetch dateStr = Rejected) wanted
              then \<lparr>requests = wanted, promise = Rejected, after = st\<rparr>
              else
                let newWeatherData = fold (assign fetch) wanted []
                in \<lparr>requests = wanted, promise = Fulfilled (),
                    after = (if length (map fst newWeatherData) > 0
                             then st\<lparr>weatherMap := mergeWeather newWeatherData (weatherMap st)\<rparr>
                             else st)\<rparr>)"

subsection \<open>The widget as a transition system\<close>

text \<open>
  The events that reach the component: a click on a day cell, the two month buttons, the
  confirm and close buttons, and the completion of a prefetch cycle. An event carries the
  clock reading of the render it happens in, where the component uses one.
\<close>

datatype Event =
    DayClick Date Date
  | PrevMonth
  | NextMonth
  | Confirm
  | Close
  | Prefetch FetchWeatherForecast Date

fun step :: "Props \<Rightarrow> Event \<Rightarrow> State \<Rightarrow> State \<times> Callback list" where
  "step props (DayClick now date) st = (handleDateClick props (startOfDay now) st date, [])"
| "step props PrevMonth st = (prevMonthClick st, [])"
| "step props NextMonth st = (nextMonthClick st, [])"
| "step props Confirm st = (st, confirmClick props st)"
| "step props Close st = (st, closeClick)"
| "step props (Prefetch fetch now) st = (after (loadWeatherForView fetch (startOfDay now) st), [])"

fun run :: "Props \<Rightarrow> Event list \<Rightarrow> State \<Rightarrow> State \<times> Callback list" where
  "run props [] st = (st, [])"
| "run props (ev # evs) st =
     (let (st1, out1) = step props ev st; (st2, out2) = run props evs st1
      in (st2, out1 @ out2))"

text \<open>\<^verbatim>\<open>useState(new Date())\<close>, \<^verbatim>\<open>useState(null)\<close>, \<^verbatim>\<open>useState({})\<close>.\<close>

definition initialState :: "Date \<Rightarrow> State" where
  "initialState now = \<lparr>currentMonth = now, selectedDate = None, weatherMap = Map.empty\<rparr>"

section \<open>What the two loops compute\<close>

text \<open>\<open>daysFrom start n\<close>: the \<open>n\<close> consecutive days \<open>start\<close>, \<open>addDays start 1\<close>, ...\<close>

definition daysFrom :: "Date \<Rightarrow> nat \<Rightarrow> Date list" where
  "daysFrom start n = map (\<lambda>i. addDays start (int i)) [0..<n]"

text \<open>The days of the grid, in rendering order.\<close>

definition visibleDays :: "Props \<Rightarrow> Date \<Rightarrow> State \<Rightarrow> Date list" where
  "visibleDays props today st = map cloneDay (concat (renderCells props today st))"

lemma daysFrom_0: "daysFrom start 0 = []"
  unfolding daysFrom_def by simp

lemma daysFrom_Suc: "daysFrom start (Suc n) = start # daysFrom (addDays start 1) n"
proof -
  have "[0..<Suc n] = 0 # map Suc [0..<n]"
    by (simp add: upt_conv_Cons map_Suc_upt del: upt_Suc)
  then show ?thesis
    unfolding daysFrom_def by (simp add: addDays_eq algebra_simps comp_def del: upt_Suc)
qed

lemma daysFrom_append:
  "daysFrom start (a + b) = daysFrom start a @ daysFrom (addDays start (int a)) b"
proof (induction a arbitrary: start)
  case 0
  show ?case by (simp add: daysFrom_0 addDays_eq)
next
  case (Suc a)
  have "addDays (addDays start 1) (int a) = addDays start (int (Suc a))"
    by (simp add: addDays_eq algebra_simps)
  then show ?case using Suc [of "addDays start 1"] by (simp add: daysFrom_Suc)
qed

lemma length_daysFrom: "length (daysFrom start n) = n"
  unfolding daysFrom_def by simp

lemma nth_daysFrom: "i < n \<Longrightarrow> daysFrom start n ! i = start + int i * msPerDay"
  unfolding daysFrom_def by (simp add: addDays_eq)

lemma renderWeek_eq:
  "renderWeek cell k day days = (days @ map cell (daysFrom day k), addDays day (int k))"
proof (induction k arbitrary: day days)
  case 0
  show ?case by (simp add: daysFrom_0 addDays_eq)
next
  case (Suc k)
  have "addDays (addDays day 1) (int k) = addDays day (int (Suc k))"
    by (simp add: addDays_eq algebra_simps)
  then show ?case by (simp add: Suc daysFrom_Suc)
qed

text \<open>
  When \<open>endDate\<close> is the last millisecond of the day \<open>7 * k\<close> days after \<open>day\<close> minus one,
  the outer loop runs \<open>k\<close> rounds.
\<close>

lemma renderRows_weeks:
  assumes "endDate = day + (7 * int k) * msPerDay - 1"
  shows "concat (renderRows cell endDate day rows)
           = concat rows @ map cell (daysFrom day (7 * k))
         \<and> length (renderRows cell endDate day rows) = length rows + k"
  using assms
proof (induction k arbitrary: day rows)
  case 0
  then have "\<not> day \<le> endDate" by simp
  then show ?case by (subst renderRows.simps, subst renderRows.simps) (simp add: daysFrom_0)
next
  case (Suc k)
  have le: "day \<le> endDate" using Suc.prems unfolding msPerDay_def by simp
  define day' where "day' = addDays day 7"
  have e: "endDate = day' + (7 * int k) * msPerDay - 1"
    using Suc.prems unfolding day'_def addDays_eq by (simp add: algebra_simps)
  have w: "renderWeek cell 7 day [] = (map cell (daysFrom day 7), day')"
    unfolding day'_def using renderWeek_eq [of cell 7 day "[]"] by simp
  have unf: "renderRows cell endDate day rows
      = renderRows cell endDate day' (rows @ [map cell (daysFrom day 7)])"
    using le w by (subst renderRows.simps) simp
  have split: "daysFrom day (7 * Suc k) = daysFrom day 7 @ daysFrom day' (7 * k)"
    unfolding day'_def using daysFrom_append [of day 7 "7 * k"] by simp
  show ?case
    unfolding unf split using Suc.IH [OF e] by simp
qed

lemma collectDays_eq:
  assumes "endDate = day + int n * msPerDay - 1"
  shows "collectDays today endDate day acc
           = acc @ map format_yyyy_MM_dd
               (filter (\<lambda>d. 0 \<le> differenceInDays d today \<and> differenceInDays d today \<le> 13)
                  (daysFrom day n))"
  using assms
proof (induction n arbitrary: day acc)
  case 0
  then have "\<not> day \<le> endDate" by simp
  then show ?case by (subst collectDays.simps) (simp add: daysFrom_0)
next
  case (Suc n)
  have le: "day \<le> endDate" using Suc.prems unfolding msPerDay_def by simp
  have e: "endDate = addDays day 1 + int n * msPerDay - 1"
    using Suc.prems unfolding addDays_eq by (simp add: algebra_simps)
  show ?case
    using le by (subst collectDays.simps) (simp add: Let_def Suc.IH [OF e] daysFrom_Suc)
qed

section \<open>The shape of the grid\<close>

text \<open>The day numbers of the first and the last day of a date's month.\<close>

definition firstDayOfMonth :: "Date \<Rightarrow> int" where
  "firstDayOfMonth t =
     DayFromYear (getFullYear t) + DaysBeforeMonth (getMonth t) (InLeapYear (getFullYear t))"

definition lastDayOfMonth :: "Date \<Rightarrow> int" where
  "lastDayOfMonth t =
     DayFromYear (getFullYear t) + DaysBeforeMonth (getMonth t + 1) (InLeapYear (getFullYear t)) - 1"

lemma getMonth_range: "0 \<le> getMonth t" "getMonth t \<le> 11"
  unfolding getMonth_def using MonthFromDay_range [of "Day t"] by simp_all

lemma month_nonempty: "firstDayOfMonth t \<le> lastDayOfMonth t"
  unfolding firstDayOfMonth_def lastDayOfMonth_def
  using month_length_pos [OF getMonth_range, of t "getFullYear t"] by linarith

lemma isSameMonth_bounds:
  assumes "isSameMonth t cm"
  shows "firstDayOfMonth cm \<le> Day t" "Day t \<le> lastDayOfMonth cm"
proof -
  have y: "YearFromDay (Day t) = getFullYear cm" and m: "MonthFromDay (Day t) = getMonth cm"
    using assms unfolding isSameMonth_def getFullYear_def getMonth_def by simp_all
  note b = MonthFromDay_bounds [of "Day t", unfolded y m DayWithinYear_def]
  show "firstDayOfMonth cm \<le> Day t" unfolding firstDayOfMonth_def using b by linarith
  show "Day t \<le> lastDayOfMonth cm" unfolding lastDayOfMonth_def using b by linarith
qed

lemma Day_startOfMonth: "Day (startOfMonth cm) = firstDayOfMonth cm"
  unfolding startOfMonth_eq Day_midnight firstDayOfMonth_def by (rule Day_first_of_month)

lemma isSameMonth_startOfMonth: "isSameMonth (startOfMonth cm) cm"
  unfolding isSameMonth_def by (simp add: startOfMonth_fields)

lemma Day_endOfMonth: "Day (endOfMonth (startOfMonth cm)) = lastDayOfMonth cm"
  unfolding endOfMonth_eq Day_last_ms lastDayOfMonth_def by (simp add: startOfMonth_fields)

lemma isSameMonth_endOfMonth: "isSameMonth (endOfMonth (startOfMonth cm)) cm"
proof -
  define y where "y = getFullYear cm"
  define m where "m = getMonth cm"
  define len where "len = DaysBeforeMonth (m + 1) (InLeapYear y) - DaysBeforeMonth m (InLeapYear y)"
  have m: "0 \<le> m" "m \<le> 11" unfolding m_def by (rule getMonth_range)+
  have len: "1 \<le> len" unfolding len_def by (rule month_length_pos [OF m])
  have le: "len \<le> DaysBeforeMonth (m + 1) (InLeapYear y) - DaysBeforeMonth m (InLeapYear y)"
    unfolding len_def by simp
  have "m div 12 = 0" "m mod 12 = m" using m by simp_all
  then have "lastDayOfMonth cm = MakeDay y m len"
    unfolding lastDayOfMonth_def MakeDay_def Let_def y_def [symmetric] m_def [symmetric] len_def
    by simp
  then have D: "Day (endOfMonth (startOfMonth cm)) = MakeDay y m len"
    using Day_endOfMonth [of cm] by simp
  show ?thesis
    unfolding isSameMonth_def getFullYear_def getMonth_def D
    using MakeDay_fields(1,2) [OF m len le] unfolding y_def m_def getFullYear_def getMonth_def
    by simp
qed

text \<open>The first and the last day shown: a Monday and a Sunday.\<close>

definition gridFirstDay :: "Date \<Rightarrow> int" where
  "gridFirstDay cm = firstDayOfMonth cm - (WeekDay (firstDayOfMonth cm) + 6) mod 7"

definition gridLastDay :: "Date \<Rightarrow> int" where
  "gridLastDay cm = lastDayOfMonth cm + (7 - WeekDay (lastDayOfMonth cm)) mod 7"

definition weeksShown :: "Date \<Rightarrow> nat" where
  "weeksShown cm = nat ((gridLastDay cm - gridFirstDay cm + 1) div 7)"

lemma startDate_eq: "startOfWeek (startOfMonth cm) 1 = gridFirstDay cm * msPerDay"
  unfolding startOfWeek_eq Day_startOfMonth gridFirstDay_def ..

lemma endDate_eq:
  "endOfWeek (endOfMonth (startOfMonth cm)) 1 = gridLastDay cm * msPerDay + (msPerDay - 1)"
  unfolding endOfWeek_eq Day_endOfMonth gridLastDay_def ..

lemma grid_around_month:
  "gridFirstDay cm \<le> firstDayOfMonth cm" "firstDayOfMonth cm < gridFirstDay cm + 7"
  "lastDayOfMonth cm \<le> gridLastDay cm" "gridLastDay cm < lastDayOfMonth cm + 7"
proof -
  have a: "0 \<le> (WeekDay (firstDayOfMonth cm) + 6) mod 7" "(WeekDay (firstDayOfMonth cm) + 6) mod 7 < 7"
    by simp_all
  have b: "0 \<le> (7 - WeekDay (lastDayOfMonth cm)) mod 7" "(7 - WeekDay (lastDayOfMonth cm)) mod 7 < 7"
    by simp_all
  show "gridFirstDay cm \<le> firstDayOfMonth cm" "firstDayOfMonth cm < gridFirstDay cm + 7"
    unfolding gridFirstDay_def using a by linarith+
  show "lastDayOfMonth cm \<le> gridLastDay cm" "gridLastDay cm < lastDayOfMonth cm + 7"
    unfolding gridLastDay_def using b by linarith+
qed

lemma grid_weekdays: "WeekDay (gridFirstDay cm) = 1" "WeekDay (gridLastDay cm) = 0"
  unfolding gridFirstDay_def gridLastDay_def by (rule WeekDay_monday, rule WeekDay_sunday)

lemma grid_span:
  "gridLastDay cm - gridFirstDay cm + 1 = 7 * int (weeksShown cm)" "1 \<le> weeksShown cm"
proof -
  define n where "n = gridLastDay cm - gridFirstDay cm + 1"
  have n7: "n = 7 * (n div 7)"
    unfolding n_def gridFirstDay_def gridLastDay_def by (rule week_span)
  have pos: "1 \<le> n"
    unfolding n_def using grid_around_month(1,3) [of cm] month_nonempty [of cm] by linarith
  have q: "1 \<le> n div 7" using n7 pos by linarith
  show "gridLastDay cm - gridFirstDay cm + 1 = 7 * int (weeksShown cm)"
    unfolding weeksShown_def n_def [symmetric] using n7 q by simp
  show "1 \<le> weeksShown cm"
    unfolding weeksShown_def n_def [symmetric] using q by simp
qed

lemma endDate_from_startDate:
  "endOfWeek (endOfMonth (startOfMonth cm)) 1
     = startOfWeek (startOfMonth cm) 1 + (7 * int (weeksShown cm)) * msPerDay - 1"
proof -
  have e: "gridLastDay cm = gridFirstDay cm + 7 * int (weeksShown cm) - 1"
    using grid_span(1) [of cm] by linarith
  have "gridLastDay cm * msPerDay
      = gridFirstDay cm * msPerDay + (7 * int (weeksShown cm)) * msPerDay - msPerDay"
    unfolding e by (simp add: algebra_simps)
  then show ?thesis
    unfolding endDate_eq startDate_eq by simp
qed

lemma cloneDay_renderCell: "cloneDay (renderCell props today st monthStart day) = day"
  unfolding renderCell_def by simp

lemma renderCells_eq:
  "concat (renderCells props today st)
     = map (renderCell props today st (startOfMonth (currentMonth st)))
         (daysFrom (startOfWeek (startOfMonth (currentMonth st)) 1)
            (7 * weeksShown (currentMonth st)))"
  "length (renderCells props today st) = weeksShown (currentMonth st)"
  unfolding renderCells_def Let_def
  using renderRows_weeks [OF endDate_from_startDate, of _ "currentMonth st" "[]"]
  by simp_all

lemma visibleDays_eq:
  "visibleDays props today st
     = daysFrom (startOfWeek (startOfMonth (currentMonth st)) 1) (7 * weeksShown (currentMonth st))"
  unfolding visibleDays_def renderCells_eq
  by (simp add: comp_def cloneDay_renderCell)

lemma count_day_daysFrom:
  "length (filter (\<lambda>d. Day d = x) (daysFrom (s * msPerDay) n))
     = (if s \<le> x \<and> x < s + int n then 1 else 0)"
proof (induction n arbitrary: s)
  case 0
  show ?case by (simp add: daysFrom_0)
next
  case (Suc n)
  have nx: "addDays (s * msPerDay) 1 = (s + 1) * msPerDay"
    unfolding addDays_eq by (simp add: algebra_simps)
  have h: "length (filter (\<lambda>d. Day d = x) (daysFrom ((s + 1) * msPerDay) n))
      = (if s + 1 \<le> x \<and> x < s + 1 + int n then 1 else 0)"
    by (rule Suc)
  have "length (filter (\<lambda>d. Day d = x) (daysFrom (s * msPerDay) (Suc n)))
      = (if s = x then 1 else 0)
        + length (filter (\<lambda>d. Day d = x) (daysFrom ((s + 1) * msPerDay) n))"
    unfolding daysFrom_Suc nx by (simp add: Day_midnight)
  also have "\<dots> = (if s \<le> x \<and> x < s + int (Suc n) then 1 else 0)"
    unfolding h by auto
  finally show ?case .
qed

lemma isSameDay_iff: "isSameDay a b \<longleftrightarrow> Day a = Day b"
  unfolding isSameDay_def startOfDay_eq msPerDay_def by simp

lemma renderRows_row_length:
  "list_all (\<lambda>row. length row = 7) rows \<Longrightarrow>
     list_all (\<lambda>row. length row = 7) (renderRows cell endDate day rows)"
proof (induction cell endDate day rows rule: renderRows.induct)
  case (1 cell endDate day rows)
  show ?case
  proof (cases "day \<le> endDate")
    case True
    have "length (fst (renderWeek cell 7 day [])) = 7"
      by (simp add: renderWeek_eq length_daysFrom)
    then have "list_all (\<lambda>row. length row = 7) (rows @ [fst (renderWeek cell 7 day [])])"
      using "1.prems" by simp
    from "1.IH" [OF True this] show ?thesis
      using True by (subst renderRows.simps) simp
  next
    case False
    then show ?thesis using "1.prems" by (subst renderRows.simps) simp
  qed
qed

lemma visibleDays_hd:
  "hd (visibleDays props today st) = gridFirstDay (currentMonth st) * msPerDay"
proof -
  obtain k where k: "7 * weeksShown (currentMonth st) = Suc k"
    using grid_span(2) [of "currentMonth st"] by (cases "7 * weeksShown (currentMonth st)") simp_all
  show ?thesis
    unfolding visibleDays_eq k daysFrom_Suc startDate_eq by simp
qed

lemma visibleDays_last:
  "last (visibleDays props today st) = gridLastDay (currentMonth st) * msPerDay"
proof -
  define n where "n = 7 * weeksShown (currentMonth st)"
  have n: "0 < n" unfolding n_def using grid_span(2) [of "currentMonth st"] by simp
  have ne: "daysFrom (gridFirstDay (currentMonth st) * msPerDay) n \<noteq> []"
    using n length_daysFrom [of "gridFirstDay (currentMonth st) * msPerDay" n] by auto
  have "last (daysFrom (gridFirstDay (currentMonth st) * msPerDay) n)
      = daysFrom (gridFirstDay (currentMonth st) * msPerDay) n ! (n - 1)"
    using last_conv_nth [OF ne] by (simp add: length_daysFrom)
  also have "\<dots> = gridFirstDay (currentMonth st) * msPerDay + int (n - 1) * msPerDay"
    using n by (intro nth_daysFrom) simp
  also have "int (n - 1) = gridLastDay (currentMonth st) - gridFirstDay (currentMonth st)"
    using grid_span(1) [of "currentMonth st"] n unfolding n_def by simp
  finally show ?thesis
    unfolding visibleDays_eq startDate_eq n_def by (simp add: algebra_simps)
qed

section \<open>Printed dates tell days apart\<close>

lemma digitChar_code:
  assumes "k < 10"
  shows "of_char (digitChar k) = 48 + k"
proof -
  have "k = 9 \<or> k = 8 \<or> k = 7 \<or> k = 6 \<or> k = 5 \<or> k < 5" using assms by arith
  moreover have "k < 5 \<Longrightarrow> k = 4 \<or> k = 3 \<or> k = 2 \<or> k = 1 \<or> k = 0" by arith
  ultimately show ?thesis
    unfolding digitChar_def by (elim disjE) auto
qed

lemma digitChar_inj:
  assumes "a < 10" "b < 10" "digitChar a = digitChar b"
  shows "a = b"
proof -
  have "(of_char (digitChar a) :: nat) = of_char (digitChar b)" using assms(3) by simp
  then show ?thesis
    unfolding digitChar_code [OF assms(1)] digitChar_code [OF assms(2)] by simp
qed

lemma addLeadingZeros_2:
  assumes "0 \<le> n" "n < 100"
  shows "addLeadingZeros n 2 = [digitChar (nat n div 10), digitChar (nat n mod 10)]"
proof (cases "nat n < 10")
  case True
  then have "numberToString (nat n) = [digitChar (nat n)]" by simp
  then show ?thesis
    unfolding addLeadingZeros_def Let_def padStart_def using assms True
    by (simp add: digitChar_def)
next
  case False
  have "nat n div 10 < 10" using assms by simp
  then have "numberToString (nat n div 10) = [digitChar (nat n div 10)]" by simp
  then have "numberToString (nat n) = [digitChar (nat n div 10), digitChar (nat n mod 10)]"
    using False by (subst numberToString.simps) simp
  then show ?thesis
    unfolding addLeadingZeros_def Let_def padStart_def using assms by simp
qed

lemma addLeadingZeros_2_inj:
  assumes "0 \<le> a" "a < 100" "0 \<le> b" "b < 100" "addLeadingZeros a 2 = addLeadingZeros b 2"
  shows "a = b"
proof -
  have e: "digitChar (nat a div 10) = digitChar (nat b div 10)"
    "digitChar (nat a mod 10) = digitChar (nat b mod 10)"
    using assms(5) unfolding addLeadingZeros_2 [OF assms(1,2)] addLeadingZeros_2 [OF assms(3,4)]
    by simp_all
  have "nat a div 10 = nat b div 10"
    using assms(2,4) by (intro digitChar_inj [OF _ _ e(1)]) simp_all
  moreover have "nat a mod 10 = nat b mod 10"
    by (intro digitChar_inj [OF _ _ e(2)]) simp_all
  ultimately have "nat a = nat b"
    by (metis div_mult_mod_eq)
  then show ?thesis using assms(1,3) by simp
qed

lemma getDate_range: "1 \<le> getDate t" "getDate t \<le> 31"
proof -
  show "1 \<le> getDate t" unfolding getDate_def by (rule DateFromDay_pos)
  define d where "d = Day t"
  define l where "l = InLeapYear (YearFromDay d)"
  have l: "0 \<le> l" "l \<le> 1" using InLeapYear_cases [of "YearFromDay d"] unfolding l_def by auto
  have m: "MonthFromDay d = 0 \<or> MonthFromDay d = 1 \<or> MonthFromDay d = 2 \<or> MonthFromDay d = 3
      \<or> MonthFromDay d = 4 \<or> MonthFromDay d = 5 \<or> MonthFromDay d = 6 \<or> MonthFromDay d = 7
      \<or> MonthFromDay d = 8 \<or> MonthFromDay d = 9 \<or> MonthFromDay d = 10 \<or> MonthFromDay d = 11"
    using MonthFromDay_range [of d] by (intro month_cases) simp_all
  have "DayWithinYear d < DaysBeforeMonth (MonthFromDay d + 1) l"
    using MonthFromDay_bounds [of d] unfolding l_def by simp
  then have "DayWithinYear d - DaysBeforeMonth (MonthFromDay d) l + 1 \<le> 31"
    using m l by (elim disjE) (simp_all add: DaysBeforeMonth_simps)
  then show "getDate t \<le> 31"
    unfolding getDate_def DateFromDay_def d_def [symmetric] l_def [symmetric] .
qed

lemma format_tail:
  assumes "format_yyyy_MM_dd a = format_yyyy_MM_dd b"
  shows "getMonth a = getMonth b" "getDate a = getDate b"
proof -
  have ma: "0 \<le> getMonth a + 1" "getMonth a + 1 < 100" using getMonth_range [of a] by simp_all
  have mb: "0 \<le> getMonth b + 1" "getMonth b + 1 < 100" using getMonth_range [of b] by simp_all
  have da: "0 \<le> getDate a" "getDate a < 100" using getDate_range [of a] by simp_all
  have db: "0 \<le> getDate b" "getDate b < 100" using getDate_range [of b] by simp_all
  have lm: "length (format_MM a) = 2" "length (format_MM b) = 2"
    unfolding format_MM_def addLeadingZeros_2 [OF ma] addLeadingZeros_2 [OF mb] by simp_all
  have ld: "length (format_dd a) = 2" "length (format_dd b) = 2"
    unfolding format_dd_def addLeadingZeros_2 [OF da] addLeadingZeros_2 [OF db] by simp_all
  have eq: "(format_yyyy a @ ''-'') @ (format_MM a @ ''-'' @ format_dd a)
      = (format_yyyy b @ ''-'') @ (format_MM b @ ''-'' @ format_dd b)"
    using assms unfolding format_yyyy_MM_dd_def by simp
  have "length (format_MM a @ ''-'' @ format_dd a) = length (format_MM b @ ''-'' @ format_dd b)"
    using lm ld by simp
  with eq have r: "format_MM a @ ''-'' @ format_dd a = format_MM b @ ''-'' @ format_dd b"
    by (metis append_eq_append_conv)
  have "format_MM a = format_MM b \<and> ''-'' @ format_dd a = ''-'' @ format_dd b"
    using r lm by (metis append_eq_append_conv)
  then have m: "format_MM a = format_MM b" and d: "format_dd a = format_dd b" by simp_all
  have "getMonth a + 1 = getMonth b + 1"
    using m unfolding format_MM_def by (rule addLeadingZeros_2_inj [OF ma mb])
  then show "getMonth a = getMonth b" by simp
  show "getDate a = getDate b"
    using d unfolding format_dd_def by (rule addLeadingZeros_2_inj [OF da db])
qed

lemma DaysBeforeMonth_leap:
  assumes "0 \<le> m" "m \<le> 11" "0 \<le> l1" "l1 \<le> 1" "0 \<le> l2" "l2 \<le> 1"
  shows "DaysBeforeMonth m l1 - 1 \<le> DaysBeforeMonth m l2"
proof -
  note m = month_cases [OF assms(1,2)]
  show ?thesis
    using m assms(3-6) by (elim disjE) (simp_all add: DaysBeforeMonth_simps)
qed

lemma Day_from_fields:
  "d = DayFromYear (YearFromDay d)
       + DaysBeforeMonth (MonthFromDay d) (InLeapYear (YearFromDay d)) + DateFromDay d - 1"
  unfolding DateFromDay_def DayWithinYear_def by simp

lemma same_month_date_apart:
  assumes "MonthFromDay d1 = MonthFromDay d2" "DateFromDay d1 = DateFromDay d2"
    and "YearFromDay d1 < YearFromDay d2"
  shows "d1 + 365 \<le> d2"
proof -
  define l1 where "l1 = InLeapYear (YearFromDay d1)"
  define l2 where "l2 = InLeapYear (YearFromDay d2)"
  have l: "0 \<le> l1" "l1 \<le> 1" "0 \<le> l2" "l2 \<le> 1"
    using InLeapYear_cases [of "YearFromDay d1"] InLeapYear_cases [of "YearFromDay d2"]
    unfolding l1_def l2_def by auto
  have m: "0 \<le> MonthFromDay d2" "MonthFromDay d2 \<le> 11"
    using MonthFromDay_range [of d2] by simp_all
  have "DayFromYear (YearFromDay d1 + 1) \<le> DayFromYear (YearFromDay d2)"
    using assms(3) by (intro DayFromYear_mono) simp
  then have y: "DayFromYear (YearFromDay d1) + 365 + l1 \<le> DayFromYear (YearFromDay d2)"
    using DayFromYear_step [of "YearFromDay d1"] DaysInYear_InLeapYear [of "YearFromDay d1"]
    unfolding l1_def by linarith
  have b: "DaysBeforeMonth (MonthFromDay d2) l1 - 1 \<le> DaysBeforeMonth (MonthFromDay d2) l2"
    by (rule DaysBeforeMonth_leap [OF m l])
  have b0: "DaysBeforeMonth (MonthFromDay d2) l1 \<le> DaysBeforeMonth (MonthFromDay d2) l2 + l1"
  proof (cases "l1 = 0")
    case True
    have "DaysBeforeMonth (MonthFromDay d2) 0 \<le> DaysBeforeMonth (MonthFromDay d2) l2"
      using month_cases [OF m] l(3) by (elim disjE) (simp_all add: DaysBeforeMonth_simps)
    then show ?thesis using True by simp
  next
    case False
    then have "l1 = 1" using l by linarith
    then show ?thesis using b by linarith
  qed
  have e1: "d1 = DayFromYear (YearFromDay d1) + DaysBeforeMonth (MonthFromDay d2) l1
      + DateFromDay d2 - 1"
    using Day_from_fields [of d1] unfolding l1_def assms(1,2) .
  have e2: "d2 = DayFromYear (YearFromDay d2) + DaysBeforeMonth (MonthFromDay d2) l2
      + DateFromDay d2 - 1"
    using Day_from_fields [of d2] unfolding l2_def .
  show ?thesis using e1 e2 y b0 by linarith
qed

text \<open>Two dates less than 365 days apart that print alike are the same day.\<close>

lemma format_inj_near:
  assumes "format_yyyy_MM_dd a = format_yyyy_MM_dd b" "\<bar>Day a - Day b\<bar> < 365"
  shows "Day a = Day b"
proof -
  have m: "MonthFromDay (Day a) = MonthFromDay (Day b)"
    and d: "DateFromDay (Day a) = DateFromDay (Day b)"
    using format_tail [OF assms(1)] unfolding getMonth_def getDate_def by simp_all
  consider "YearFromDay (Day a) < YearFromDay (Day b)"
    | "YearFromDay (Day b) < YearFromDay (Day a)"
    | "YearFromDay (Day a) = YearFromDay (Day b)" by linarith
  then show ?thesis
  proof cases
    case 1
    from same_month_date_apart [OF m d 1] assms(2) show ?thesis by linarith
  next
    case 2
    from same_month_date_apart [OF m [symmetric] d [symmetric] 2] assms(2)
    show ?thesis by linarith
  next
    case 3
    show ?thesis
      using Day_from_fields [of "Day a"] Day_from_fields [of "Day b"] unfolding m d 3 by linarith
  qed
qed

text \<open>A year of four digits prints as ten characters with hyphens at positions 4 and 7.\<close>

lemma numberToString_length:
  assumes "k < 10000"
  shows "length (numberToString k) \<le> 4"
proof -
  have a: "length (numberToString j) = 1" if "j < 10" for j
    using that by simp
  have b: "length (numberToString j) \<le> 2" if "j < 100" for j
  proof (cases "j < 10")
    case True
    then show ?thesis using a [of j] by simp
  next
    case False
    have "j div 10 < 10" using that by simp
    then show ?thesis using False a [of "j div 10"] by (subst numberToString.simps) simp
  qed
  have c: "length (numberToString j) \<le> 3" if "j < 1000" for j
  proof (cases "j < 10")
    case True
    then show ?thesis using a [of j] by simp
  next
    case False
    have "j div 10 < 100" using that by simp
    then show ?thesis using False b [of "j div 10"] by (subst numberToString.simps) simp
  qed
  show ?thesis
  proof (cases "k < 10")
    case True
    then show ?thesis using a [of k] by simp
  next
    case False
    have "k div 10 < 1000" using assms by simp
    then show ?thesis using False c [of "k div 10"] by (subst numberToString.simps) simp
  qed
qed

lemma format_yyyy_length:
  assumes "1 \<le> getFullYear date" "getFullYear date \<le> 9999"
  shows "length (format_yyyy date) = 4"
proof -
  have "nat \<bar>getFullYear date\<bar> < 10000" using assms by simp
  then have "length (numberToString (nat \<bar>getFullYear date\<bar>)) \<le> 4"
    by (rule numberToString_length)
  then show ?thesis
    unfolding format_yyyy_def Let_def addLeadingZeros_def padStart_def using assms by simp
qed

lemma format_shape:
  assumes "1 \<le> getFullYear date" "getFullYear date \<le> 9999"
  shows "length (format_yyyy_MM_dd date) = 10"
    "format_yyyy_MM_dd date ! 4 = CHR ''-''"
    "format_yyyy_MM_dd date ! 7 = CHR ''-''"
proof -
  have m: "0 \<le> getMonth date + 1" "getMonth date + 1 < 100"
    using getMonth_range [of date] by simp_all
  have d: "0 \<le> getDate date" "getDate date < 100" using getDate_range [of date] by simp_all
  have y: "length (format_yyyy date) = 4" by (rule format_yyyy_length [OF assms])
  obtain y1 y2 y3 y4 where ys: "format_yyyy date = [y1, y2, y3, y4]"
    using y by (auto simp: length_Suc_conv numeral_eq_Suc)
  show "length (format_yyyy_MM_dd date) = 10"
    "format_yyyy_MM_dd date ! 4 = CHR ''-''"
    "format_yyyy_MM_dd date ! 7 = CHR ''-''"
    unfolding format_yyyy_MM_dd_def format_MM_def format_dd_def ys
      addLeadingZeros_2 [OF m] addLeadingZeros_2 [OF d]
    by simp_all
qed

section \<open>The candidates of a prefetch cycle\<close>

lemma daysToFetch_eq:
  "daysToFetch cm today
     = map format_yyyy_MM_dd
         (filter (\<lambda>d. 0 \<le> differenceInDays d today \<and> differenceInDays d today \<le> 13)
            (daysFrom (startOfWeek (startOfMonth cm) 1) (7 * weeksShown cm)))"
proof -
  have e: "endOfWeek (endOfMonth (startOfMonth cm)) 1
      = startOfWeek (startOfMonth cm) 1 + int (7 * weeksShown cm) * msPerDay - 1"
    using endDate_from_startDate [of cm] by simp
  show ?thesis
    unfolding daysToFetch_def Let_def collectDays_eq [OF e] by simp
qed

lemma daysFrom_midnight:
  assumes "d \<in> set (daysFrom (s * msPerDay) n)"
  shows "d = Day d * msPerDay" "s \<le> Day d" "Day d < s + int n"
proof -
  obtain i where i: "i < n" "d = s * msPerDay + int i * msPerDay"
    using assms unfolding daysFrom_def by (auto simp: addDays_eq)
  have d: "d = (s + int i) * msPerDay" using i(2) by (simp add: algebra_simps)
  have D: "Day d = s + int i" unfolding d by (rule Day_midnight)
  show "d = Day d * msPerDay" unfolding D using d .
  show "s \<le> Day d" "Day d < s + int n" unfolding D using i(1) by simp_all
qed

lemma horizon_filter:
  "filter (\<lambda>d. 0 \<le> differenceInDays d (startOfDay now)
        \<and> differenceInDays d (startOfDay now) \<le> 13) (daysFrom (s * msPerDay) n)
   = filter (\<lambda>d. Day now \<le> Day d \<and> Day d \<le> Day now + 13) (daysFrom (s * msPerDay) n)"
proof (rule filter_cong [OF refl])
  fix d
  assume "d \<in> set (daysFrom (s * msPerDay) n)"
  then have d: "d = Day d * msPerDay" by (rule daysFrom_midnight(1))
  have "differenceInDays d (startOfDay now) = Day d - Day now"
    unfolding startOfDay_eq by (subst d) (rule differenceInDays_midnights)
  then show "(0 \<le> differenceInDays d (startOfDay now) \<and> differenceInDays d (startOfDay now) \<le> 13)
      = (Day now \<le> Day d \<and> Day d \<le> Day now + 13)"
    by auto
qed

lemma window_length:
  "length (filter (\<lambda>d. lo \<le> Day d \<and> Day d \<le> hi) (daysFrom (s * msPerDay) n))
     \<le> nat (hi + 1 - max lo s)"
proof (induction n arbitrary: s)
  case 0
  show ?case by (simp add: daysFrom_0)
next
  case (Suc n)
  have nx: "addDays (s * msPerDay) 1 = (s + 1) * msPerDay"
    unfolding addDays_eq by (simp add: algebra_simps)
  have h: "length (filter (\<lambda>d. lo \<le> Day d \<and> Day d \<le> hi) (daysFrom ((s + 1) * msPerDay) n))
      \<le> nat (hi + 1 - max lo (s + 1))"
    by (rule Suc)
  have "length (filter (\<lambda>d. lo \<le> Day d \<and> Day d \<le> hi) (daysFrom (s * msPerDay) (Suc n)))
      = (if lo \<le> s \<and> s \<le> hi then 1 else 0)
        + length (filter (\<lambda>d. lo \<le> Day d \<and> Day d \<le> hi) (daysFrom ((s + 1) * msPerDay) n))"
    unfolding daysFrom_Suc nx by (simp add: Day_midnight)
  also have "\<dots> \<le> (if lo \<le> s \<and> s \<le> hi then 1 else 0) + nat (hi + 1 - max lo (s + 1))"
    using h by simp
  also have "\<dots> \<le> nat (hi + 1 - max lo s)"
    by (auto simp: max_def)
  finally show ?case .
qed

lemma daysToFetch_length: "length (daysToFetch cm (startOfDay now)) \<le> 14"
proof -
  have "length (daysToFetch cm (startOfDay now))
      \<le> nat (Day now + 13 + 1 - max (Day now) (gridFirstDay cm))"
    unfolding daysToFetch_eq startDate_eq horizon_filter length_map by (rule window_length)
  also have "\<dots> \<le> 14" by linarith
  finally show ?thesis .
qed

lemma distinct_daysFrom: "distinct (daysFrom start n)"
  unfolding daysFrom_def
  by (simp add: distinct_map inj_on_def addDays_eq msPerDay_def)

lemma distinct_daysToFetch: "distinct (daysToFetch cm (startOfDay now))"
proof -
  define xs where "xs = filter (\<lambda>d. Day now \<le> Day d \<and> Day d \<le> Day now + 13)
      (daysFrom (gridFirstDay cm * msPerDay) (7 * weeksShown cm))"
  have dx: "distinct xs" unfolding xs_def by (intro distinct_filter distinct_daysFrom)
  have inj: "inj_on format_yyyy_MM_dd (set xs)"
  proof (rule inj_onI)
    fix a b
    assume a: "a \<in> set xs" and b: "b \<in> set xs"
      and eq: "format_yyyy_MM_dd a = format_yyyy_MM_dd b"
    have am: "a = Day a * msPerDay" and bm: "b = Day b * msPerDay"
      using a b unfolding xs_def by (auto dest: daysFrom_midnight(1))
    have "Day now \<le> Day a" "Day a \<le> Day now + 13" "Day now \<le> Day b" "Day b \<le> Day now + 13"
      using a b unfolding xs_def by simp_all
    then have "\<bar>Day a - Day b\<bar> < 365" by linarith
    from format_inj_near [OF eq this] show "a = b" using am bm by simp
  qed
  show ?thesis
    unfolding daysToFetch_eq startDate_eq horizon_filter xs_def [symmetric]
    using dx inj by (simp add: distinct_map)
qed

text \<open>A printed candidate comes from a midnight of the grid inside the horizon.\<close>

lemma daysToFetch_member:
  "s \<in> set (daysToFetch cm (startOfDay now)) \<longleftrightarrow>
     (\<exists>d \<in> set (daysFrom (startOfWeek (startOfMonth cm) 1) (7 * weeksShown cm)).
        s = format_yyyy_MM_dd d \<and> Day now \<le> Day d \<and> Day d \<le> Day now + 13)"
  unfolding daysToFetch_eq startDate_eq horizon_filter by auto

section \<open>What a prefetch cycle does to the cache\<close>

lemma map_of_fold_assign:
  "map_of (fold (assign fetch) xs acc) k
     = (if k \<in> set xs
        then (case fetch k of
                Fulfilled (Some w) \<Rightarrow> Some w
              | Fulfilled None \<Rightarrow> map_of acc k
              | Rejected \<Rightarrow> map_of acc k)
        else map_of acc k)"
proof (induction xs arbitrary: acc)
  case Nil
  show ?case by simp
next
  case (Cons x xs)
  show ?case
    unfolding fold_simps Cons
    by (auto simp: assign_def update_conv' split: Settled.splits option.splits)
qed

lemma cycle_requests:
  "requests (loadWeatherForView fetch today st)
     = filter (\<lambda>s. weatherMap st s = None) (daysToFetch (currentMonth st) today)"
  unfolding loadWeatherForView_def Let_def by simp

lemma cycle_rejected:
  assumes "list_ex (\<lambda>s. fetch s = Rejected) (requests (loadWeatherForView fetch today st))"
  shows "promise (loadWeatherForView fetch today st) = Rejected"
    "after (loadWeatherForView fetch today st) = st"
proof -
  have ex: "list_ex (\<lambda>s. fetch s = Rejected)
      (filter (\<lambda>s. weatherMap st s = None) (daysToFetch (currentMonth st) today))"
    using assms unfolding cycle_requests .
  then have ne: "daysToFetch (currentMonth st) today \<noteq> []" by auto
  show "promise (loadWeatherForView fetch today st) = Rejected"
    "after (loadWeatherForView fetch today st) = st"
    unfolding loadWeatherForView_def Let_def using ex ne by simp_all
qed

lemma cycle_fulfilled:
  assumes "\<not> list_ex (\<lambda>s. fetch s = Rejected) (requests (loadWeatherForView fetch today st))"
  shows "promise (loadWeatherForView fetch today st) = Fulfilled ()"
    "weatherMap (after (loadWeatherForView fetch today st)) k
       = (if k \<in> set (requests (loadWeatherForView fetch today st))
          then (case fetch k of Fulfilled r \<Rightarrow> r | Rejected \<Rightarrow> None)
          else weatherMap st k)"
proof -
  define wanted where
    "wanted = filter (\<lambda>s. weatherMap st s = None) (daysToFetch (currentMonth st) today)"
  define new where "new = fold (assign fetch) wanted []"
  have nex: "\<not> list_ex (\<lambda>s. fetch s = Rejected) wanted"
    using assms unfolding cycle_requests wanted_def .
  show "promise (loadWeatherForView fetch today st) = Fulfilled ()"
    unfolding loadWeatherForView_def Let_def wanted_def [symmetric] using nex by simp
  have w: "weatherMap (after (loadWeatherForView fetch today st)) = weatherMap st ++ map_of new"
  proof (cases "daysToFetch (currentMonth st) today = []")
    case True
    then have "wanted = []" unfolding wanted_def by simp
    then have "new = []" unfolding new_def by simp
    then show ?thesis unfolding loadWeatherForView_def Let_def using True by simp
  next
    case False
    show ?thesis
      unfolding loadWeatherForView_def Let_def wanted_def [symmetric] new_def [symmetric]
      using False nex by (cases new) (simp_all add: mergeWeather_def)
  qed
  have none: "k \<in> set wanted \<Longrightarrow> weatherMap st k = None"
    unfolding wanted_def by simp
  have rej: "k \<in> set wanted \<Longrightarrow> fetch k \<noteq> Rejected"
    using nex by (auto simp: list_ex_iff)
  show "weatherMap (after (loadWeatherForView fetch today st)) k
       = (if k \<in> set (requests (loadWeatherForView fetch today st))
          then (case fetch k of Fulfilled r \<Rightarrow> r | Rejected \<Rightarrow> None)
          else weatherMap st k)"
    unfolding w cycle_requests wanted_def [symmetric] new_def map_add_def map_of_fold_assign
    using none rej by (auto split: Settled.splits option.splits)
qed

lemma cycle_cache_le:
  "weatherMap st \<subseteq>\<^sub>m weatherMap (after (loadWeatherForView fetch today st))"
proof (cases "list_ex (\<lambda>s. fetch s = Rejected) (requests (loadWeatherForView fetch today st))")
  case True
  then show ?thesis by (simp add: cycle_rejected(2))
next
  case False
  show ?thesis
    unfolding map_le_def cycle_fulfilled(2) [OF False] cycle_requests by auto
qed

lemma step_cache_le: "weatherMap st \<subseteq>\<^sub>m weatherMap (fst (step props ev st))"
  by (cases ev)
    (simp_all add: handleDateClick_def prevMonthClick_def nextMonthClick_def cycle_cache_le)

lemma run_cache_le: "weatherMap st \<subseteq>\<^sub>m weatherMap (fst (run props evs st))"
proof (induction evs arbitrary: st)
  case Nil
  show ?case by simp
next
  case (Cons ev evs)
  obtain st1 out1 where s1: "step props ev st = (st1, out1)" by (cases "step props ev st")
  obtain st2 out2 where s2: "run props evs st1 = (st2, out2)" by (cases "run props evs st1")
  have "weatherMap st \<subseteq>\<^sub>m weatherMap st1" using step_cache_le [of st props ev] s1 by simp
  moreover have "weatherMap st1 \<subseteq>\<^sub>m weatherMap st2" using Cons [of st1] s2 by simp
  ultimately have "weatherMap st \<subseteq>\<^sub>m weatherMap st2" by (rule map_le_trans)
  then show ?case using s1 s2 by simp
qed

lemma count_list_distinct: "distinct xs \<Longrightarrow> x \<in> set xs \<Longrightarrow> count_list xs x = 1"
  by (induction xs) auto

section \<open>Dates used in the examples\<close>

text \<open>
  Midnights of 2024 (UTC) as time values, noon of 2024-05-01 as a clock reading, and a
  trip whose season runs from 2024-05-01 to 2024-09-30.
\<close>

abbreviation d_2024_04_29 :: Date where "d_2024_04_29 \<equiv> 1714348800000"
abbreviation d_2024_05_01 :: Date where "d_2024_05_01 \<equiv> 1714521600000"
abbreviation d_2024_05_08 :: Date where "d_2024_05_08 \<equiv> 1715126400000"
abbreviation d_2024_05_10 :: Date where "d_2024_05_10 \<equiv> 1715299200000"
abbreviation d_2024_05_11 :: Date where "d_2024_05_11 \<equiv> 1715385600000"
abbreviation d_2024_05_20 :: Date where "d_2024_05_20 \<equiv> 1716163200000"
abbreviation d_2024_06_02 :: Date where "d_2024_06_02 \<equiv> 1717286400000"
abbreviation d_2024_09_30 :: Date where "d_2024_09_30 \<equiv> 1727654400000"
abbreviation noon_2024_05_01 :: Date where "noon_2024_05_01 \<equiv> 1714564800000"

abbreviation summerTrip :: "Lang \<Rightarrow> Props" where
  "summerTrip l \<equiv> \<lparr>tripStart = d_2024_05_01, tripEnd = d_2024_09_30, lang = l\<rparr>"

text \<open>
  A forecast, and three behaviours of the weather service: every call returns the
  forecast; the call for 2024-05-10 returns nothing; the call for 2024-05-10 rejects.
\<close>

abbreviation mild :: WeatherData where
  "mild \<equiv> \<lparr>weatherCode = 1, minTemp = 8, maxTemp = 17\<rparr>"

definition alwaysMild :: FetchWeatherForecast where
  "alwaysMild key = Fulfilled (Some mild)"

definition absentMay10 :: FetchWeatherForecast where
  "absentMay10 key = (if key = ''2024-05-10'' then Fulfilled None else Fulfilled (Some mild))"

definition rejectMay10 :: FetchWeatherForecast where
  "rejectMay10 key = (if key = ''2024-05-10'' then Rejected else Fulfilled (Some mild))"

subsection \<open>May 2024 on the grid\<close>

lemma mem_daysFrom: "i < n \<Longrightarrow> start + int i * msPerDay \<in> set (daysFrom start n)"
  using nth_mem [of i "daysFrom start n"] by (simp add: length_daysFrom nth_daysFrom)

lemma may_grid:
  "startOfWeek (startOfMonth noon_2024_05_01) 1 = d_2024_04_29"
  "weeksShown noon_2024_05_01 = 5"
proof -
  have f: "gridFirstDay noon_2024_05_01 = 19842" by code_simp
  have l: "gridLastDay noon_2024_05_01 = 19876" by code_simp
  show "startOfWeek (startOfMonth noon_2024_05_01) 1 = d_2024_04_29"
    unfolding startDate_eq f msPerDay_def by simp
  show "weeksShown noon_2024_05_01 = 5"
    unfolding weeksShown_def f l by simp
qed

lemma may_printed:
  "format_yyyy_MM_dd d_2024_05_10 = ''2024-05-10''"
  "format_yyyy_MM_dd d_2024_05_11 = ''2024-05-11''"
  "format_yyyy_MM_dd d_2024_05_20 = ''2024-05-20''"
  by code_simp+

lemma may_days:
  "Day noon_2024_05_01 = 19844" "Day d_2024_05_10 = 19853" "Day d_2024_05_11 = 19854"
  "Day d_2024_05_20 = 19863"
  unfolding Day_def msPerDay_def by simp_all

lemma may_visible:
  "d_2024_05_10 \<in> set (daysFrom (startOfWeek (startOfMonth noon_2024_05_01) 1)
      (7 * weeksShown noon_2024_05_01))"
  "d_2024_05_11 \<in> set (daysFrom (startOfWeek (startOfMonth noon_2024_05_01) 1)
      (7 * weeksShown noon_2024_05_01))"
  "d_2024_05_20 \<in> set (daysFrom (startOfWeek (startOfMonth noon_2024_05_01) 1)
      (7 * weeksShown noon_2024_05_01))"
  unfolding may_grid
  using mem_daysFrom [of 11 35 d_2024_04_29] mem_daysFrom [of 12 35 d_2024_04_29]
    mem_daysFrom [of 21 35 d_2024_04_29]
  by (simp_all add: msPerDay_def)

lemma may_candidates:
  "''2024-05-10'' \<in> set (daysToFetch noon_2024_05_01 (startOfDay noon_2024_05_01))"
  "''2024-05-11'' \<in> set (daysToFetch noon_2024_05_01 (startOfDay noon_2024_05_01))"
  unfolding daysToFetch_member
  using may_visible(1,2) may_printed(1,2) may_days by force+

text \<open>With today = 2024-05-01 the date 2024-05-20 is no candidate, whatever month is shown.\<close>

lemma may20_no_candidate:
  "''2024-05-20'' \<notin> set (daysToFetch cm (startOfDay noon_2024_05_01))"
proof
  assume "''2024-05-20'' \<in> set (daysToFetch cm (startOfDay noon_2024_05_01))"
  then obtain d where d: "''2024-05-20'' = format_yyyy_MM_dd d"
    "Day noon_2024_05_01 \<le> Day d" "Day d \<le> Day noon_2024_05_01 + 13"
    unfolding daysToFetch_member by blast
  have eq: "format_yyyy_MM_dd d = format_yyyy_MM_dd d_2024_05_20"
    using d(1) may_printed(3) by simp
  have "\<bar>Day d - Day d_2024_05_20\<bar> < 365" using d(2,3) unfolding may_days by linarith
  from format_inj_near [OF eq this] d(3) show False unfolding may_days by simp
qed

lemma initial_cycle_requests:
  "requests (loadWeatherForView fetch today (initialState now)) = daysToFetch now today"
  unfolding cycle_requests initialState_def by simp

lemma getFullYear_2024_05_10: "getFullYear d_2024_05_10 = 2024"
  by code_simp

section \<open>The availability rule\<close>

text \<open>
  Claim C1. On a season window with \<open>tripStart \<le> tripEnd\<close>, \<open>isDateAvailable\<close> returns
  true for a date exactly when the date lies in the inclusive window, is not strictly
  before the start of today, and its weekday is not Wednesday (\<open>getDay\<close> 3). So it is
  false outside the window, false strictly before today even in season, and false on
  every Wednesday.
\<close>

theorem isDateAvailable_iff:
  assumes "tripStart props \<le> tripEnd props"
  shows "(isDateAvailable props (startOfDay now) d \<longleftrightarrow>
            (tripStart props \<le> d \<and> d \<le> tripEnd props)
            \<and> \<not> d < startOfDay now
            \<and> getDay d \<noteq> 3)
         \<and> (\<not> (tripStart props \<le> d \<and> d \<le> tripEnd props)
              \<longrightarrow> \<not> isDateAvailable props (startOfDay now) d)
         \<and> (d < startOfDay now \<longrightarrow> \<not> isDateAvailable props (startOfDay now) d)
         \<and> (getDay d = 3 \<longrightarrow> \<not> isDateAvailable props (startOfDay now) d)"
  using assms
  unfolding isDateAvailable_def isWithinInterval_def isBefore_def Let_def
  by (auto simp: min_def max_def)

text \<open>
  The rule at work, with the clock at noon of 2024-05-01: Friday 2024-05-10 is available,
  Wednesday 2024-05-08 is not, Monday 2024-04-29 (before the season and before today) is
  not.
\<close>

theorem isDateAvailable_iff_witness:
  "tripStart (summerTrip It) \<le> tripEnd (summerTrip It)
   \<and> isDateAvailable (summerTrip It) (startOfDay noon_2024_05_01) d_2024_05_10
   \<and> getDay d_2024_05_08 = 3
   \<and> \<not> isDateAvailable (summerTrip It) (startOfDay noon_2024_05_01) d_2024_05_08
   \<and> d_2024_04_29 < startOfDay noon_2024_05_01
   \<and> \<not> isDateAvailable (summerTrip It) (startOfDay noon_2024_05_01) d_2024_04_29"
  using isDateAvailable_iff [of "summerTrip It" noon_2024_05_01 d_2024_05_10]
    isDateAvailable_iff [of "summerTrip It" noon_2024_05_01 d_2024_05_08]
    isDateAvailable_iff [of "summerTrip It" noon_2024_05_01 d_2024_04_29]
  by (simp add: startOfDay_def setHours_def MakeDate_def MakeTime_def Day_def msPerDay_def
      getDay_def WeekDay_def)

section \<open>Selection\<close>

lemma loadWeatherForView_frame:
  "selectedDate (after (loadWeatherForView fetch today st)) = selectedDate st"
  "currentMonth (after (loadWeatherForView fetch today st)) = currentMonth st"
  unfolding loadWeatherForView_def Let_def by simp_all

lemma step_selectedDate:
  "selectedDate (fst (step props ev st)) = Some d \<Longrightarrow>
     selectedDate st = Some d
     \<or> (\<exists>now. ev = DayClick now d \<and> isDateAvailable props (startOfDay now) d)"
  by (cases ev)
    (auto simp: handleDateClick_def prevMonthClick_def nextMonthClick_def
      loadWeatherForView_frame split: if_splits)

lemma run_selectedDate:
  "selectedDate (fst (run props evs st)) = Some d \<Longrightarrow>
     selectedDate st = Some d
     \<or> (\<exists>now. DayClick now d \<in> set evs \<and> isDateAvailable props (startOfDay now) d)"
proof (induction evs arbitrary: st)
  case Nil
  then show ?case by simp
next
  case (Cons ev evs)
  obtain st1 out1 where s1: "step props ev st = (st1, out1)" by (cases "step props ev st")
  obtain st2 out2 where s2: "run props evs st1 = (st2, out2)" by (cases "run props evs st1")
  have "selectedDate (fst (run props evs st1)) = Some d"
    using Cons.prems s1 s2 by simp
  then have "selectedDate st1 = Some d
     \<or> (\<exists>now. DayClick now d \<in> set evs \<and> isDateAvailable props (startOfDay now) d)"
    by (rule Cons.IH)
  then show ?case
  proof
    assume "selectedDate st1 = Some d"
    then have "selectedDate (fst (step props ev st)) = Some d" using s1 by simp
    then show ?thesis using step_selectedDate [of props ev st d] by auto
  next
    assume "\<exists>now. DayClick now d \<in> set evs \<and> isDateAvailable props (startOfDay now) d"
    then show ?thesis by auto
  qed
qed

lemma rendered_cell:
  assumes "c \<in> set (concat (renderCells props today st))"
  shows "c = renderCell props today st (startOfMonth (currentMonth st)) (cloneDay c)"
proof -
  obtain day where "c = renderCell props today st (startOfMonth (currentMonth st)) day"
    using assms unfolding renderCells_eq by auto
  then show ?thesis by (simp add: cloneDay_renderCell)
qed

lemma rendered_cell_available:
  assumes "c \<in> set (concat (renderCells props today st))"
  shows "isAvailable c = isDateAvailable props today (cloneDay c)"
  by (subst rendered_cell [OF assms]) (simp add: renderCell_def)

text \<open>
  Claim C5. A click on a day cell calls \<open>handleDateClick\<close> with the cell's date
  \<open>cloneDay\<close>, for cells of the current month and overflow cells alike; the cell's
  \<open>isAvailable\<close> is the availability of that date. When the date is unavailable the
  state is returned unchanged; when it is available the state changes in \<open>selectedDate\<close>
  alone, which becomes exactly that date. Hence, along any sequence of events from the
  initial state, a set \<open>selectedDate\<close> was put there by a click on that date at a render
  whose availability rule it satisfied.
\<close>

theorem selection_gating:
  "(\<not> isDateAvailable props today date \<longrightarrow> handleDateClick props today st date = st)
   \<and> (isDateAvailable props today date \<longrightarrow>
        handleDateClick props today st date = st\<lparr>selectedDate := Some date\<rparr>)
   \<and> (\<forall>c \<in> set (concat (renderCells props today st)).
        isAvailable c = isDateAvailable props today (cloneDay c)
        \<and> (\<not> isAvailable c \<longrightarrow> handleDateClick props today st (cloneDay c) = st)
        \<and> (isAvailable c \<longrightarrow>
             handleDateClick props today st (cloneDay c) = st\<lparr>selectedDate := Some (cloneDay c)\<rparr>))
   \<and> (selectedDate (fst (run props evs (initialState now0))) = Some d \<longrightarrow>
        (\<exists>now. DayClick now d \<in> set evs \<and> isDateAvailable props (startOfDay now) d))"
proof (intro conjI impI ballI)
  assume "selectedDate (fst (run props evs (initialState now0))) = Some d"
  from run_selectedDate [OF this]
  show "\<exists>now. DayClick now d \<in> set evs \<and> isDateAvailable props (startOfDay now) d"
    unfolding initialState_def by simp
next
  fix c
  assume c: "c \<in> set (concat (renderCells props today st))"
  show "isAvailable c = isDateAvailable props today (cloneDay c)"
    by (rule rendered_cell_available [OF c])
  show "handleDateClick props today st (cloneDay c) = st" if "\<not> isAvailable c"
    using that unfolding rendered_cell_available [OF c] handleDateClick_def by simp
  show "handleDateClick props today st (cloneDay c) = st\<lparr>selectedDate := Some (cloneDay c)\<rparr>"
    if "isAvailable c"
    using that unfolding rendered_cell_available [OF c] handleDateClick_def by simp
qed (simp_all add: handleDateClick_def)

text \<open>
  With the clock at noon of 2024-05-01: a click on Friday 2024-05-10 selects it, a later
  click on Wednesday 2024-05-08 changes nothing.
\<close>

theorem selection_gating_witness:
  "isDateAvailable (summerTrip It) (startOfDay noon_2024_05_01) d_2024_05_10
   \<and> handleDateClick (summerTrip It) (startOfDay noon_2024_05_01)
         (initialState noon_2024_05_01) d_2024_05_10
       = (initialState noon_2024_05_01)\<lparr>selectedDate := Some d_2024_05_10\<rparr>
   \<and> \<not> isDateAvailable (summerTrip It) (startOfDay noon_2024_05_01) d_2024_05_08
   \<and> handleDateClick (summerTrip It) (startOfDay noon_2024_05_01)
         (initialState noon_2024_05_01) d_2024_05_08
       = initialState noon_2024_05_01
   \<and> selectedDate (fst (run (summerTrip It)
         [DayClick noon_2024_05_01 d_2024_05_10, DayClick noon_2024_05_01 d_2024_05_08]
         (initialState noon_2024_05_01))) = Some d_2024_05_10
   \<and> (\<exists>now. DayClick now d_2024_05_10
           \<in> set [DayClick noon_2024_05_01 d_2024_05_10, DayClick noon_2024_05_01 d_2024_05_08]
         \<and> isDateAvailable (summerTrip It) (startOfDay now) d_2024_05_10)
   \<and> renderCell (summerTrip It) (startOfDay noon_2024_05_01) (initialState noon_2024_05_01)
         (startOfMonth noon_2024_05_01) d_2024_05_10
       \<in> set (concat (renderCells (summerTrip It) (startOfDay noon_2024_05_01)
           (initialState noon_2024_05_01)))
   \<and> isAvailable (renderCell (summerTrip It) (startOfDay noon_2024_05_01)
         (initialState noon_2024_05_01) (startOfMonth noon_2024_05_01) d_2024_05_10)"
proof -
  have cm: "currentMonth (initialState noon_2024_05_01) = noon_2024_05_01"
    unfolding initialState_def by simp
  have cell: "renderCell (summerTrip It) (startOfDay noon_2024_05_01)
         (initialState noon_2024_05_01) (startOfMonth noon_2024_05_01) d_2024_05_10
       \<in> set (concat (renderCells (summerTrip It) (startOfDay noon_2024_05_01)
           (initialState noon_2024_05_01)))"
    unfolding renderCells_eq cm using may_visible(1) by simp
  have a: "isDateAvailable (summerTrip It) (startOfDay noon_2024_05_01) d_2024_05_10"
    by code_simp
  have b: "\<not> isDateAvailable (summerTrip It) (startOfDay noon_2024_05_01) d_2024_05_08"
    by code_simp
  have c: "selectedDate (fst (run (summerTrip It)
         [DayClick noon_2024_05_01 d_2024_05_10, DayClick noon_2024_05_01 d_2024_05_08]
         (initialState noon_2024_05_01))) = Some d_2024_05_10"
    by (simp add: handleDateClick_def a b)
  show ?thesis
    using a b c cell
      selection_gating [of "summerTrip It" "startOfDay noon_2024_05_01" d_2024_05_10
        "initialState noon_2024_05_01"
        "[DayClick noon_2024_05_01 d_2024_05_10, DayClick noon_2024_05_01 d_2024_05_08]"
        noon_2024_05_01 d_2024_05_10]
      selection_gating [of "summerTrip It" "startOfDay noon_2024_05_01" d_2024_05_08
        "initialState noon_2024_05_01" "[]" noon_2024_05_01 d_2024_05_10]
    by (auto simp: cloneDay_renderCell)
qed

section \<open>Confirmation\<close>

text \<open>
  Claim C6. With no date selected the confirm button is disabled and its handler invokes
  no callback. With a date selected the handler invokes \<open>onConfirm\<close> once, with that
  date formatted as \<^verbatim>\<open>yyyy-MM-dd\<close>. The invocations are the same for \<open>lang = It\<close> and
  \<open>lang = En\<close>. For a date of the years 1 to 9999 the string has ten characters, with a
  hyphen after the year and after the month. Selecting May 10, 2024 and confirming
  passes the string \<^verbatim>\<open>2024-05-10\<close>, under either language.
\<close>

theorem confirm_payload:
  "(selectedDate st = None \<longrightarrow> confirmDisabled st \<and> confirmClick props st = [])
   \<and> (selectedDate st = Some date \<longrightarrow>
        \<not> confirmDisabled st \<and> confirmClick props st = [OnConfirm (format_yyyy_MM_dd date)])
   \<and> confirmClick (props\<lparr>lang := It\<rparr>) st = confirmClick (props\<lparr>lang := En\<rparr>) st
   \<and> (1 \<le> getFullYear date \<and> getFullYear date \<le> 9999 \<longrightarrow>
        length (format_yyyy_MM_dd date) = 10
        \<and> format_yyyy_MM_dd date ! 4 = CHR ''-''
        \<and> format_yyyy_MM_dd date ! 7 = CHR ''-'')
   \<and> format_yyyy_MM_dd d_2024_05_10 = ''2024-05-10''
   \<and> snd (run (summerTrip It)
          [DayClick noon_2024_05_01 d_2024_05_10, Confirm] (initialState noon_2024_05_01))
       = [OnConfirm ''2024-05-10'']
   \<and> snd (run (summerTrip En)
          [DayClick noon_2024_05_01 d_2024_05_10, Confirm] (initialState noon_2024_05_01))
       = [OnConfirm ''2024-05-10'']"
proof (intro conjI)
  show "1 \<le> getFullYear date \<and> getFullYear date \<le> 9999 \<longrightarrow>
        length (format_yyyy_MM_dd date) = 10
        \<and> format_yyyy_MM_dd date ! 4 = CHR ''-''
        \<and> format_yyyy_MM_dd date ! 7 = CHR ''-''"
    using format_shape [of date] by blast
  show "format_yyyy_MM_dd d_2024_05_10 = ''2024-05-10''" by code_simp
  show "snd (run (summerTrip It)
          [DayClick noon_2024_05_01 d_2024_05_10, Confirm] (initialState noon_2024_05_01))
       = [OnConfirm ''2024-05-10'']" by code_simp
  show "snd (run (summerTrip En)
          [DayClick noon_2024_05_01 d_2024_05_10, Confirm] (initialState noon_2024_05_01))
       = [OnConfirm ''2024-05-10'']" by code_simp
qed (simp_all add: confirmClick_def confirmDisabled_def)

theorem confirm_payload_witness:
  "selectedDate (initialState noon_2024_05_01) = None
   \<and> confirmDisabled (initialState noon_2024_05_01)
   \<and> confirmClick (summerTrip En) (initialState noon_2024_05_01) = []
   \<and> selectedDate ((initialState noon_2024_05_01)\<lparr>selectedDate := Some d_2024_05_10\<rparr>)
        = Some d_2024_05_10
   \<and> confirmClick (summerTrip En)
         ((initialState noon_2024_05_01)\<lparr>selectedDate := Some d_2024_05_10\<rparr>)
       = [OnConfirm ''2024-05-10'']
   \<and> 1 \<le> getFullYear d_2024_05_10 \<and> getFullYear d_2024_05_10 \<le> 9999
   \<and> length (format_yyyy_MM_dd d_2024_05_10) = 10"
  using confirm_payload [where st = "initialState noon_2024_05_01" and date = d_2024_05_10
      and props = "summerTrip En"]
    confirm_payload
      [where st = "(initialState noon_2024_05_01)\<lparr>selectedDate := Some d_2024_05_10\<rparr>"
        and date = d_2024_05_10 and props = "summerTrip En"]
    getFullYear_2024_05_10
  by (simp add: initialState_def)

text \<open>
  Claim C7, as stated, fails: the confirm handler invokes \<open>onConfirm\<close> and nothing else.
  With May 10, 2024 selected its only invocation is \<open>OnConfirm\<close>; \<open>onClose\<close> is not
  called.
\<close>

theorem confirm_closes_counterexample:
  "confirmClick (summerTrip It)
     (handleDateClick (summerTrip It)
        (startOfDay noon_2024_05_01) (initialState noon_2024_05_01) d_2024_05_10)
     = [OnConfirm ''2024-05-10'']
   \<and> OnClose \<notin> set (confirmClick (summerTrip It)
     (handleDateClick (summerTrip It)
        (startOfDay noon_2024_05_01) (initialState noon_2024_05_01) d_2024_05_10))"
  by code_simp

text \<open>
  Claim C7, amended. Triggering confirmation emits the ISO date string of the selected
  date through \<open>onConfirm\<close>; it never invokes \<open>onClose\<close> and leaves the component's
  state as it was. Closing is left to the caller (\<open>onClose\<close> is invoked by the close
  button only).
\<close>

theorem confirm_does_not_close:
  "OnClose \<notin> set (confirmClick props st)
   \<and> OnClose \<notin> set (snd (step props Confirm st))
   \<and> fst (step props Confirm st) = st
   \<and> confirmClick props st =
        (case selectedDate st of None \<Rightarrow> [] | Some date \<Rightarrow> [OnConfirm (format_yyyy_MM_dd date)])
   \<and> snd (step props Close st) = [OnClose]"
  by (simp add: confirmClick_def confirmDisabled_def closeClick_def split: option.split)

section \<open>Grid completeness\<close>

text \<open>
  Claim C2. For every \<open>currentMonth\<close>, the days of the rendered grid are consecutive days
  starting at \<open>startOfWeek (startOfMonth currentMonth)\<close>. Their number is seven times the
  number of rows, every row has seven cells, and there is at least one row. The first day
  is a Monday (\<open>getDay\<close> 1), on or at most six days before the first day of the month; the
  last day is a Sunday (\<open>getDay\<close> 0), on or at most six days after the last day of the
  month. \<open>startOfMonth\<close> is the day 1 of the month of \<open>currentMonth\<close>, \<open>endOfMonth\<close> lies in the
  same month, and every date of that month lies between the two. For every date of the
  month of \<open>currentMonth\<close>, exactly one day of the grid is the same day.
\<close>

theorem grid_completeness:
  "visibleDays props today st
     = daysFrom (startOfWeek (startOfMonth (currentMonth st)) 1)
         (length (visibleDays props today st))
   \<and> length (visibleDays props today st) = 7 * length (renderCells props today st)
   \<and> 0 < length (renderCells props today st)
   \<and> list_all (\<lambda>row. length row = 7) (renderCells props today st)
   \<and> getDay (hd (visibleDays props today st)) = 1
   \<and> Day (hd (visibleDays props today st)) \<le> Day (startOfMonth (currentMonth st))
   \<and> Day (startOfMonth (currentMonth st)) < Day (hd (visibleDays props today st)) + 7
   \<and> getDay (last (visibleDays props today st)) = 0
   \<and> Day (endOfMonth (startOfMonth (currentMonth st))) \<le> Day (last (visibleDays props today st))
   \<and> Day (last (visibleDays props today st)) < Day (endOfMonth (startOfMonth (currentMonth st))) + 7
   \<and> getDate (startOfMonth (currentMonth st)) = 1
   \<and> isSameMonth (startOfMonth (currentMonth st)) (currentMonth st)
   \<and> isSameMonth (endOfMonth (startOfMonth (currentMonth st))) (currentMonth st)
   \<and> (\<forall>t. isSameMonth t (currentMonth st) \<longrightarrow>
          Day (startOfMonth (currentMonth st)) \<le> Day t
          \<and> Day t \<le> Day (endOfMonth (startOfMonth (currentMonth st))))
   \<and> (\<forall>t. isSameMonth t (currentMonth st) \<longrightarrow>
          length (filter (\<lambda>d. isSameDay d t) (visibleDays props today st)) = 1)"
proof -
  define cm where "cm = currentMonth st"
  define days where "days = visibleDays props today st"
  have len: "length days = 7 * weeksShown cm"
    unfolding days_def visibleDays_eq cm_def by (rule length_daysFrom)
  have c1: "days = daysFrom (startOfWeek (startOfMonth cm) 1) (length days)"
    unfolding len unfolding days_def cm_def by (rule visibleDays_eq)
  have c2: "length days = 7 * length (renderCells props today st)"
    unfolding len cm_def by (simp add: renderCells_eq(2))
  have c3: "0 < length (renderCells props today st)"
    using grid_span(2) [of "currentMonth st"] by (simp add: renderCells_eq(2))
  have c4: "list_all (\<lambda>row. length row = 7) (renderCells props today st)"
    unfolding renderCells_def Let_def by (rule renderRows_row_length) simp
  have hd: "Day (hd days) = gridFirstDay cm" and hd_wd: "getDay (hd days) = 1"
    unfolding days_def visibleDays_hd getDay_def Day_midnight cm_def
    by (simp_all add: grid_weekdays)
  have la: "Day (last days) = gridLastDay cm" and la_wd: "getDay (last days) = 0"
    unfolding days_def visibleDays_last getDay_def Day_midnight cm_def
    by (simp_all add: grid_weekdays)
  have c9: "\<forall>t. isSameMonth t cm \<longrightarrow>
      Day (startOfMonth cm) \<le> Day t \<and> Day t \<le> Day (endOfMonth (startOfMonth cm))"
    unfolding Day_startOfMonth Day_endOfMonth using isSameMonth_bounds by blast
  have c10: "\<forall>t. isSameMonth t cm \<longrightarrow> length (filter (\<lambda>d. isSameDay d t) days) = 1"
  proof (intro allI impI)
    fix t
    assume sm: "isSameMonth t cm"
    have "gridFirstDay cm \<le> Day t"
      using isSameMonth_bounds(1) [OF sm] grid_around_month(1) [of cm] by linarith
    moreover have "Day t < gridFirstDay cm + int (7 * weeksShown cm)"
      using isSameMonth_bounds(2) [OF sm] grid_around_month(3) [of cm] grid_span(1) [of cm]
      by simp
    ultimately show "length (filter (\<lambda>d. isSameDay d t) days) = 1"
      unfolding days_def visibleDays_eq startDate_eq isSameDay_iff cm_def [symmetric]
      by (simp add: count_day_daysFrom)
  qed
  show ?thesis
    unfolding cm_def [symmetric] days_def [symmetric]
    using c1 c2 c3 c4 hd_wd la_wd c9 c10
      grid_around_month [of cm] startOfMonth_fields(3) [of cm]
      isSameMonth_startOfMonth [of cm] isSameMonth_endOfMonth [of cm]
    unfolding hd la Day_startOfMonth Day_endOfMonth
    by blast
qed

text \<open>
  May 2024: the grid has 35 days in rows of seven, from Monday 2024-04-29 to Sunday
  2024-06-02, and shows 2024-05-10 once.
\<close>

theorem grid_completeness_witness:
  "isSameMonth d_2024_05_10 (currentMonth (initialState noon_2024_05_01))
   \<and> length (filter (\<lambda>d. isSameDay d d_2024_05_10)
        (visibleDays (summerTrip It) (startOfDay noon_2024_05_01) (initialState noon_2024_05_01))) = 1
   \<and> Day (startOfMonth (currentMonth (initialState noon_2024_05_01))) \<le> Day d_2024_05_10
   \<and> list_all (\<lambda>row. length row = 7)
        (renderCells (summerTrip It) (startOfDay noon_2024_05_01) (initialState noon_2024_05_01))
   \<and> length (visibleDays (summerTrip It) (startOfDay noon_2024_05_01)
        (initialState noon_2024_05_01)) = 35
   \<and> hd (visibleDays (summerTrip It) (startOfDay noon_2024_05_01)
        (initialState noon_2024_05_01)) = d_2024_04_29
   \<and> last (visibleDays (summerTrip It) (startOfDay noon_2024_05_01)
        (initialState noon_2024_05_01)) = d_2024_06_02"
proof -
  have cm: "currentMonth (initialState noon_2024_05_01) = noon_2024_05_01"
    unfolding initialState_def by simp
  have h: "isSameMonth d_2024_05_10 (currentMonth (initialState noon_2024_05_01))"
    unfolding cm by code_simp
  have n: "length (visibleDays (summerTrip It) (startOfDay noon_2024_05_01)
        (initialState noon_2024_05_01)) = 35"
    unfolding visibleDays_eq cm may_grid by (simp add: length_daysFrom)
  have f: "gridFirstDay noon_2024_05_01 = 19842" by code_simp
  have l: "gridLastDay noon_2024_05_01 = 19876" by code_simp
  have first: "hd (visibleDays (summerTrip It) (startOfDay noon_2024_05_01)
        (initialState noon_2024_05_01)) = d_2024_04_29"
    unfolding visibleDays_hd cm f msPerDay_def by simp
  have last: "last (visibleDays (summerTrip It) (startOfDay noon_2024_05_01)
        (initialState noon_2024_05_01)) = d_2024_06_02"
    unfolding visibleDays_last cm l msPerDay_def by simp
  show ?thesis
    using h n first last
      grid_completeness [of "summerTrip It" "startOfDay noon_2024_05_01"
        "initialState noon_2024_05_01"]
    by blast
qed

section \<open>The weather cache\<close>

text \<open>
  Claim C9. The cache is a map from date strings to weather data, so a key has one value.
  The updater passed to \<open>setWeatherMap\<close> keeps every key of the previous map: a key holds
  the new value when the batch has one and its previous value otherwise. Every prefetch
  cycle, every event and every sequence of events leaves each entry of the cache in
  place (a cycle only adds entries for dates that had none), so no key is ever removed.
\<close>

theorem cache_only_grows:
  "dom prev \<subseteq> dom (mergeWeather newWeatherData prev)
   \<and> mergeWeather newWeatherData prev k
       = (case map_of newWeatherData k of Some w \<Rightarrow> Some w | None \<Rightarrow> prev k)
   \<and> weatherMap st \<subseteq>\<^sub>m weatherMap (after (loadWeatherForView fetch today st))
   \<and> dom (weatherMap st) \<subseteq> dom (weatherMap (fst (step props ev st)))
   \<and> weatherMap st \<subseteq>\<^sub>m weatherMap (fst (run props evs st))
   \<and> dom (weatherMap st) \<subseteq> dom (weatherMap (fst (run props evs st)))"
proof (intro conjI)
  show "dom prev \<subseteq> dom (mergeWeather newWeatherData prev)"
    unfolding mergeWeather_def by auto
  show "mergeWeather newWeatherData prev k
       = (case map_of newWeatherData k of Some w \<Rightarrow> Some w | None \<Rightarrow> prev k)"
    unfolding mergeWeather_def map_add_def by (simp split: option.split)
  show "weatherMap st \<subseteq>\<^sub>m weatherMap (after (loadWeatherForView fetch today st))"
    by (rule cycle_cache_le)
  show "dom (weatherMap st) \<subseteq> dom (weatherMap (fst (step props ev st)))"
    by (rule map_le_implies_dom_le [OF step_cache_le])
  show "weatherMap st \<subseteq>\<^sub>m weatherMap (fst (run props evs st))"
    by (rule run_cache_le)
  show "dom (weatherMap st) \<subseteq> dom (weatherMap (fst (run props evs st)))"
    by (rule map_le_implies_dom_le [OF run_cache_le])
qed

section \<open>Failing fetches\<close>

text \<open>
  Claim C3, as stated, fails for a fetch that rejects. With today = 2024-05-01, May 2024
  shown, an empty cache and a service that rejects the call for 2024-05-10 and answers
  every other call: the call for 2024-05-11 is issued and returns a forecast, yet the
  promise of the cycle rejects and the cache has no entry for 2024-05-11 afterwards. The
  component has no handler around the fetch or around \<^verbatim>\<open>Promise.all\<close>.
\<close>

theorem prefetch_rejection_counterexample:
  "''2024-05-11'' \<in> set (requests (loadWeatherForView rejectMay10 (startOfDay noon_2024_05_01)
        (initialState noon_2024_05_01)))
   \<and> rejectMay10 ''2024-05-11'' = Fulfilled (Some mild)
   \<and> rejectMay10 ''2024-05-10'' = Rejected
   \<and> promise (loadWeatherForView rejectMay10 (startOfDay noon_2024_05_01)
        (initialState noon_2024_05_01)) = Rejected
   \<and> weatherMap (after (loadWeatherForView rejectMay10 (startOfDay noon_2024_05_01)
        (initialState noon_2024_05_01))) ''2024-05-11'' = None"
proof -
  have m: "''2024-05-10'' \<in> set (requests (loadWeatherForView rejectMay10
        (startOfDay noon_2024_05_01) (initialState noon_2024_05_01)))"
    "''2024-05-11'' \<in> set (requests (loadWeatherForView rejectMay10
        (startOfDay noon_2024_05_01) (initialState noon_2024_05_01)))"
    unfolding initial_cycle_requests by (rule may_candidates)+
  have r: "rejectMay10 ''2024-05-10'' = Rejected" "rejectMay10 ''2024-05-11'' = Fulfilled (Some mild)"
    unfolding rejectMay10_def by simp_all
  have ex: "list_ex (\<lambda>s. rejectMay10 s = Rejected)
      (requests (loadWeatherForView rejectMay10 (startOfDay noon_2024_05_01)
         (initialState noon_2024_05_01)))"
    unfolding list_ex_iff using m(1) r(1) by blast
  show ?thesis
    using m(2) r cycle_rejected [OF ex] by (simp add: initialState_def)
qed

text \<open>
  Claim C3, amended. The fetches a cycle issues do not depend on how any of them settles:
  it requests every candidate that is not in the cache. When no fetch of the cycle
  rejects, the promise of the cycle fulfils and the cache afterwards holds, for every
  requested date, what its fetch returned: the forecast when it returned one and no
  entry when it returned nothing, whatever the other fetches returned; every other key
  keeps its previous entry.
\<close>

theorem prefetch_absent_isolated:
  "requests (loadWeatherForView fetch today st)
     = filter (\<lambda>s. weatherMap st s = None) (daysToFetch (currentMonth st) today)
   \<and> (\<not> list_ex (\<lambda>s. fetch s = Rejected) (requests (loadWeatherForView fetch today st)) \<longrightarrow>
        promise (loadWeatherForView fetch today st) = Fulfilled ()
        \<and> (\<forall>k. weatherMap (after (loadWeatherForView fetch today st)) k
               = (if k \<in> set (requests (loadWeatherForView fetch today st))
                  then (case fetch k of Fulfilled r \<Rightarrow> r | Rejected \<Rightarrow> None)
                  else weatherMap st k)))"
  using cycle_requests cycle_fulfilled by blast

text \<open>
  A service that returns nothing for 2024-05-10: the cycle fulfils, 2024-05-10 stays
  without an entry and its sibling 2024-05-11 is merged.
\<close>

theorem prefetch_absent_isolated_witness:
  "\<not> list_ex (\<lambda>s. absentMay10 s = Rejected)
       (requests (loadWeatherForView absentMay10 (startOfDay noon_2024_05_01)
          (initialState noon_2024_05_01)))
   \<and> promise (loadWeatherForView absentMay10 (startOfDay noon_2024_05_01)
        (initialState noon_2024_05_01)) = Fulfilled ()
   \<and> ''2024-05-10'' \<in> set (requests (loadWeatherForView absentMay10 (startOfDay noon_2024_05_01)
        (initialState noon_2024_05_01)))
   \<and> weatherMap (after (loadWeatherForView absentMay10 (startOfDay noon_2024_05_01)
        (initialState noon_2024_05_01))) ''2024-05-10'' = None
   \<and> ''2024-05-11'' \<in> set (requests (loadWeatherForView absentMay10 (startOfDay noon_2024_05_01)
        (initialState noon_2024_05_01)))
   \<and> weatherMap (after (loadWeatherForView absentMay10 (startOfDay noon_2024_05_01)
        (initialState noon_2024_05_01))) ''2024-05-11'' = Some mild"
proof -
  have h: "\<not> list_ex (\<lambda>s. absentMay10 s = Rejected)
       (requests (loadWeatherForView absentMay10 (startOfDay noon_2024_05_01)
          (initialState noon_2024_05_01)))"
    by (simp add: list_ex_iff absentMay10_def)
  have m: "''2024-05-10'' \<in> set (requests (loadWeatherForView absentMay10
        (startOfDay noon_2024_05_01) (initialState noon_2024_05_01)))"
    "''2024-05-11'' \<in> set (requests (loadWeatherForView absentMay10
        (startOfDay noon_2024_05_01) (initialState noon_2024_05_01)))"
    unfolding initial_cycle_requests by (rule may_candidates)+
  have a: "absentMay10 ''2024-05-10'' = Fulfilled None"
    "absentMay10 ''2024-05-11'' = Fulfilled (Some mild)"
    unfolding absentMay10_def by simp_all
  show ?thesis
    using h m a
      prefetch_absent_isolated [of absentMay10 "startOfDay noon_2024_05_01"
        "initialState noon_2024_05_01"]
    by simp
qed

section \<open>Cache idempotence\<close>

text \<open>
  Claim C8. A date present in the cache is not requested by a prefetch cycle. A cycle all
  of whose candidates are cached issues no fetch, fulfils, and leaves the state as it was.
  When a first cycle requests a date, its fetch returns a forecast and the cycle fulfils,
  then a second cycle, run after any sequence of events, does not request the date again:
  over the two cycles \<open>fetchWeatherForecast\<close> is called for that date exactly once.
\<close>

theorem cache_idempotence:
  "(weatherMap st s \<noteq> None \<longrightarrow> s \<notin> set (requests (loadWeatherForView fetch today st)))
   \<and> (list_all (\<lambda>k. weatherMap st k \<noteq> None) (daysToFetch (currentMonth st) today) \<longrightarrow>
        requests (loadWeatherForView fetch today st) = []
        \<and> promise (loadWeatherForView fetch today st) = Fulfilled ()
        \<and> after (loadWeatherForView fetch today st) = st)
   \<and> (s \<in> set (requests (loadWeatherForView fetch1 (startOfDay now1) st))
        \<and> fetch1 s = Fulfilled (Some w)
        \<and> promise (loadWeatherForView fetch1 (startOfDay now1) st) = Fulfilled () \<longrightarrow>
        count_list
          (requests (loadWeatherForView fetch1 (startOfDay now1) st)
           @ requests (loadWeatherForView fetch2 (startOfDay now2)
               (fst (run props evs (after (loadWeatherForView fetch1 (startOfDay now1) st))))))
          s = 1)"
proof (intro conjI impI)
  show "s \<notin> set (requests (loadWeatherForView fetch today st))" if "weatherMap st s \<noteq> None"
    using that unfolding cycle_requests by simp
next
  assume all: "list_all (\<lambda>k. weatherMap st k \<noteq> None) (daysToFetch (currentMonth st) today)"
  then have e: "filter (\<lambda>s. weatherMap st s = None) (daysToFetch (currentMonth st) today) = []"
    by (auto simp: list_all_iff filter_empty_conv)
  show "requests (loadWeatherForView fetch today st) = []"
    unfolding cycle_requests by (rule e)
  show "promise (loadWeatherForView fetch today st) = Fulfilled ()"
    unfolding loadWeatherForView_def Let_def e by simp
  show "after (loadWeatherForView fetch today st) = st"
    unfolding loadWeatherForView_def Let_def e by simp
next
  define c1 where "c1 = loadWeatherForView fetch1 (startOfDay now1) st"
  define st2 where "st2 = fst (run props evs (after c1))"
  assume a: "s \<in> set (requests (loadWeatherForView fetch1 (startOfDay now1) st))
        \<and> fetch1 s = Fulfilled (Some w)
        \<and> promise (loadWeatherForView fetch1 (startOfDay now1) st) = Fulfilled ()"
  then have mem: "s \<in> set (requests c1)" and f: "fetch1 s = Fulfilled (Some w)"
    and p: "promise c1 = Fulfilled ()" unfolding c1_def by simp_all
  have nrej: "\<not> list_ex (\<lambda>s. fetch1 s = Rejected) (requests c1)"
    using p cycle_rejected(1) [of fetch1 "startOfDay now1" st] unfolding c1_def by auto
  have "weatherMap (after c1) s = Some w"
    unfolding c1_def cycle_fulfilled(2) [OF nrej [unfolded c1_def]]
    using mem f unfolding c1_def by simp
  moreover have "weatherMap (after c1) \<subseteq>\<^sub>m weatherMap st2"
    unfolding st2_def by (rule run_cache_le)
  ultimately have "weatherMap st2 s = Some w"
    unfolding map_le_def by (metis domI)
  then have second: "s \<notin> set (requests (loadWeatherForView fetch2 (startOfDay now2) st2))"
    unfolding cycle_requests by simp
  have "distinct (requests c1)"
    unfolding c1_def cycle_requests by (intro distinct_filter distinct_daysToFetch)
  then have first: "count_list (requests c1) s = 1"
    using mem by (rule count_list_distinct)
  show "count_list
          (requests (loadWeatherForView fetch1 (startOfDay now1) st)
           @ requests (loadWeatherForView fetch2 (startOfDay now2)
               (fst (run props evs (after (loadWeatherForView fetch1 (startOfDay now1) st))))))
          s = 1"
    unfolding c1_def [symmetric] st2_def [symmetric]
    using first second by (simp add: count_list_0_iff)
qed

text \<open>
  Two cycles on May 2024 with a service that always answers, the month buttons pressed in
  between: 2024-05-11 is fetched once; the second cycle finds all candidates cached.
\<close>

theorem cache_idempotence_witness:
  "''2024-05-11'' \<in> set (requests (loadWeatherForView alwaysMild (startOfDay noon_2024_05_01)
        (initialState noon_2024_05_01)))
   \<and> alwaysMild ''2024-05-11'' = Fulfilled (Some mild)
   \<and> promise (loadWeatherForView alwaysMild (startOfDay noon_2024_05_01)
        (initialState noon_2024_05_01)) = Fulfilled ()
   \<and> count_list
        (requests (loadWeatherForView alwaysMild (startOfDay noon_2024_05_01)
           (initialState noon_2024_05_01))
         @ requests (loadWeatherForView alwaysMild (startOfDay noon_2024_05_01)
             (fst (run (summerTrip It) [NextMonth, PrevMonth]
                (after (loadWeatherForView alwaysMild (startOfDay noon_2024_05_01)
                   (initialState noon_2024_05_01)))))))
        ''2024-05-11'' = 1
   \<and> weatherMap (after (loadWeatherForView alwaysMild (startOfDay noon_2024_05_01)
        (initialState noon_2024_05_01))) ''2024-05-11'' \<noteq> None
   \<and> ''2024-05-11'' \<notin> set (requests (loadWeatherForView alwaysMild (startOfDay noon_2024_05_01)
        (after (loadWeatherForView alwaysMild (startOfDay noon_2024_05_01)
           (initialState noon_2024_05_01)))))
   \<and> list_all (\<lambda>k. weatherMap (after (loadWeatherForView alwaysMild (startOfDay noon_2024_05_01)
          (initialState noon_2024_05_01))) k \<noteq> None)
        (daysToFetch (currentMonth (after (loadWeatherForView alwaysMild
           (startOfDay noon_2024_05_01) (initialState noon_2024_05_01))))
           (startOfDay noon_2024_05_01))
   \<and> requests (loadWeatherForView alwaysMild (startOfDay noon_2024_05_01)
        (after (loadWeatherForView alwaysMild (startOfDay noon_2024_05_01)
           (initialState noon_2024_05_01)))) = []"
proof -
  define st0 where "st0 = initialState noon_2024_05_01"
  define T where "T = startOfDay noon_2024_05_01"
  define c1 where "c1 = loadWeatherForView alwaysMild T st0"
  have req: "requests c1 = daysToFetch noon_2024_05_01 T"
    unfolding c1_def st0_def by (rule initial_cycle_requests)
  have m: "''2024-05-11'' \<in> set (requests c1)"
    unfolding req T_def by (rule may_candidates(2))
  have f: "alwaysMild ''2024-05-11'' = Fulfilled (Some mild)"
    unfolding alwaysMild_def by simp
  have nrej: "\<not> list_ex (\<lambda>s. alwaysMild s = Rejected) (requests c1)"
    by (simp add: list_ex_iff alwaysMild_def)
  have p: "promise c1 = Fulfilled ()"
    unfolding c1_def by (rule cycle_fulfilled(1) [OF nrej [unfolded c1_def]])
  have cache: "\<And>k. k \<in> set (requests c1) \<Longrightarrow> weatherMap (after c1) k = Some mild"
    unfolding c1_def cycle_fulfilled(2) [OF nrej [unfolded c1_def]]
    by (simp add: alwaysMild_def)
  have cm: "currentMonth (after c1) = noon_2024_05_01"
    unfolding c1_def loadWeatherForView_frame st0_def initialState_def by simp
  have all: "list_all (\<lambda>k. weatherMap (after c1) k \<noteq> None) (daysToFetch (currentMonth (after c1)) T)"
    unfolding cm req [symmetric] list_all_iff using cache by simp
  have one: "weatherMap (after c1) ''2024-05-11'' \<noteq> None" using cache [OF m] by simp
  show ?thesis
    unfolding st0_def [symmetric] T_def [symmetric] c1_def [symmetric]
    using m f p all one
      cache_idempotence [of "after c1" "''2024-05-11''" alwaysMild T alwaysMild
        noon_2024_05_01 mild alwaysMild noon_2024_05_01 "summerTrip It" "[NextMonth, PrevMonth]"]
      cache_idempotence [of st0 "''2024-05-11''" alwaysMild T alwaysMild
        noon_2024_05_01 mild alwaysMild noon_2024_05_01 "summerTrip It" "[NextMonth, PrevMonth]"]
    unfolding st0_def [symmetric] T_def [symmetric] c1_def [symmetric]
    by blast
qed

section \<open>The fetch horizon\<close>

text \<open>
  Claim C4. In every prefetch cycle the candidates \<open>daysToFetch\<close> are the printed dates of
  exactly those visible days whose \<open>differenceInDays\<close> from today lies in \<open>[0, 13]\<close>, in grid
  order; for a visible day this offset is the difference of the day numbers. The cycle
  requests the candidates that are not in the cache, so it issues at most 14 fetches.
  With today = 2024-05-01: the day 2024-05-20 has offset 19 and is never requested,
  whatever the month shown, the cache and the service; the day 2024-05-10 has offset 9
  and, with May 2024 shown, is requested exactly when the cache has no entry for it.
\<close>

theorem fetch_horizon:
  "daysToFetch (currentMonth st) (startOfDay now)
     = map format_yyyy_MM_dd
         (filter (\<lambda>d. 0 \<le> differenceInDays d (startOfDay now)
                      \<and> differenceInDays d (startOfDay now) \<le> 13)
            (visibleDays props today st))
   \<and> (\<forall>d \<in> set (visibleDays props today st).
         differenceInDays d (startOfDay now) = Day d - Day now)
   \<and> requests (loadWeatherForView fetch (startOfDay now) st)
       = filter (\<lambda>s. weatherMap st s = None) (daysToFetch (currentMonth st) (startOfDay now))
   \<and> length (daysToFetch (currentMonth st) (startOfDay now)) \<le> 14
   \<and> length (requests (loadWeatherForView fetch (startOfDay now) st)) \<le> 14
   \<and> differenceInDays d_2024_05_20 (startOfDay noon_2024_05_01) = 19
   \<and> ''2024-05-20'' \<notin> set (requests (loadWeatherForView fetch (startOfDay noon_2024_05_01) st))
   \<and> differenceInDays d_2024_05_10 (startOfDay noon_2024_05_01) = 9
   \<and> (currentMonth st = noon_2024_05_01 \<longrightarrow>
        d_2024_05_10 \<in> set (visibleDays props today st)
        \<and> d_2024_05_20 \<in> set (visibleDays props today st)
        \<and> (''2024-05-10'' \<in> set (requests (loadWeatherForView fetch (startOfDay noon_2024_05_01) st))
             \<longleftrightarrow> weatherMap st ''2024-05-10'' = None))"
proof (intro conjI impI ballI)
  show "daysToFetch (currentMonth st) (startOfDay now)
     = map format_yyyy_MM_dd
         (filter (\<lambda>d. 0 \<le> differenceInDays d (startOfDay now)
                      \<and> differenceInDays d (startOfDay now) \<le> 13)
            (visibleDays props today st))"
    unfolding visibleDays_eq by (rule daysToFetch_eq)
next
  fix d
  assume "d \<in> set (visibleDays props today st)"
  then have "d = Day d * msPerDay"
    unfolding visibleDays_eq startDate_eq by (rule daysFrom_midnight(1))
  then show "differenceInDays d (startOfDay now) = Day d - Day now"
    unfolding startOfDay_eq using differenceInDays_midnights [of "Day d" "Day now"] by simp
next
  show "requests (loadWeatherForView fetch (startOfDay now) st)
       = filter (\<lambda>s. weatherMap st s = None) (daysToFetch (currentMonth st) (startOfDay now))"
    by (rule cycle_requests)
  show "length (daysToFetch (currentMonth st) (startOfDay now)) \<le> 14"
    by (rule daysToFetch_length)
  show "length (requests (loadWeatherForView fetch (startOfDay now) st)) \<le> 14"
    unfolding cycle_requests
    using length_filter_le [of "\<lambda>s. weatherMap st s = None"
        "daysToFetch (currentMonth st) (startOfDay now)"]
      daysToFetch_length [of "currentMonth st" now]
    by linarith
  show "differenceInDays d_2024_05_20 (startOfDay noon_2024_05_01) = 19"
    unfolding startOfDay_eq may_days
    using differenceInDays_midnights [of 19863 19844] by (simp add: msPerDay_def)
  show "differenceInDays d_2024_05_10 (startOfDay noon_2024_05_01) = 9"
    unfolding startOfDay_eq may_days
    using differenceInDays_midnights [of 19853 19844] by (simp add: msPerDay_def)
  show "''2024-05-20'' \<notin> set (requests (loadWeatherForView fetch (startOfDay noon_2024_05_01) st))"
    unfolding cycle_requests using may20_no_candidate [of "currentMonth st"] by simp
next
  assume cm: "currentMonth st = noon_2024_05_01"
  show "d_2024_05_10 \<in> set (visibleDays props today st)"
    unfolding visibleDays_eq cm by (rule may_visible(1))
  show "d_2024_05_20 \<in> set (visibleDays props today st)"
    unfolding visibleDays_eq cm by (rule may_visible(3))
  show "''2024-05-10'' \<in> set (requests (loadWeatherForView fetch (startOfDay noon_2024_05_01) st))
      \<longleftrightarrow> weatherMap st ''2024-05-10'' = None"
    unfolding cycle_requests cm using may_candidates(1) by simp
qed

theorem fetch_horizon_witness:
  "currentMonth (initialState noon_2024_05_01) = noon_2024_05_01
   \<and> d_2024_05_10 \<in> set (visibleDays (summerTrip It) (startOfDay noon_2024_05_01)
        (initialState noon_2024_05_01))
   \<and> differenceInDays d_2024_05_10 (startOfDay noon_2024_05_01) = Day d_2024_05_10 - Day noon_2024_05_01
   \<and> weatherMap (initialState noon_2024_05_01) ''2024-05-10'' = None
   \<and> ''2024-05-10'' \<in> set (requests (loadWeatherForView alwaysMild (startOfDay noon_2024_05_01)
        (initialState noon_2024_05_01)))
   \<and> ''2024-05-20'' \<notin> set (requests (loadWeatherForView alwaysMild (startOfDay noon_2024_05_01)
        (initialState noon_2024_05_01)))"
proof -
  have cm: "currentMonth (initialState noon_2024_05_01) = noon_2024_05_01"
    and w: "weatherMap (initialState noon_2024_05_01) ''2024-05-10'' = None"
    unfolding initialState_def by simp_all
  show ?thesis
    using cm w
      fetch_horizon [of "initialState noon_2024_05_01" noon_2024_05_01 "summerTrip It"
        "startOfDay noon_2024_05_01" alwaysMild]
    by blast
qed

section \<open>Month navigation\<close>

text \<open>
  Claim C10. The previous-month and next-month buttons move \<open>currentMonth\<close> to a date of
  the calendar month exactly one before, respectively one after, the month it was in
  (\<open>addMonths\<close> keeps the day of the month, or takes the last day of a shorter target
  month). Neither button changes \<open>selectedDate\<close>, nor the weather cache.
\<close>

theorem month_navigation:
  "monthIndex (currentMonth (nextMonthClick st)) = monthIndex (currentMonth st) + 1
   \<and> monthIndex (currentMonth (prevMonthClick st)) = monthIndex (currentMonth st) - 1
   \<and> selectedDate (nextMonthClick st) = selectedDate st
   \<and> selectedDate (prevMonthClick st) = selectedDate st
   \<and> weatherMap (nextMonthClick st) = weatherMap st
   \<and> weatherMap (prevMonthClick st) = weatherMap st"
  unfolding nextMonthClick_def prevMonthClick_def subMonths_def
  by (simp add: monthIndex_addMonths)

end
